theory Spec2Isabelle
  imports Complex_Main
begin

section \<open>Data model\<close>

text \<open>
  The entities of \<^verbatim>\<open>models/post.ts\<close>, \<^verbatim>\<open>models/media.ts\<close>, \<^verbatim>\<open>models/content.ts\<close>,
  \<^verbatim>\<open>models/ai-result.ts\<close>, \<^verbatim>\<open>models/group.ts\<close> and \<^verbatim>\<open>models/download-task.ts\<close>.
  Identifiers are opaque strings in the source, produced by \<^verbatim>\<open>generateId\<close>; here they
  are natural numbers drawn from a counter. The timestamp columns (\<^verbatim>\<open>createdAt\<close>,
  \<^verbatim>\<open>updatedAt\<close>, \<^verbatim>\<open>analyzedAt\<close>) are left out: no operation of the download
  manager reads them. A JavaScript \<^verbatim>\<open>number\<close> that holds a count or a size is an
  \<open>int\<close>; a progress fraction is a binary64 value, kept as the rational it denotes.
\<close>

type_synonym ident = nat

datatype PostDownloadStatus =
  PostPending | PostDownloading | PostCompleted | PostPartial | PostFailed

datatype MediaType = Image | Video

datatype MediaDownloadStatus =
  MediaPending | MediaDownloading | MediaCompleted | MediaFailed | MediaSkipped

datatype TaskStatus =
  TaskQueued | TaskCrawling | TaskDownloading | TaskAnalyzing | TaskCompleted | TaskFailed

record Post =
  post_id :: ident
  post_url :: string
  post_urlHash :: string
  post_title :: "string option"
  post_downloadStatus :: PostDownloadStatus

record Media =
  media_id :: ident
  media_postId :: ident
  media_type :: MediaType
  media_remoteUrl :: string
  media_localPath :: "string option"
  media_fileSize :: "int option"
  media_downloadStatus :: MediaDownloadStatus
  media_sortOrder :: nat

record CreateMediaInput =
  cmi_postId :: ident
  cmi_type :: MediaType
  cmi_remoteUrl :: string
  cmi_sortOrder :: nat
  cmi_fileSize :: "int option"

record UpdateMediaInput =
  umi_localPath :: "string option"
  umi_fileSize :: "int option"
  umi_downloadStatus :: "MediaDownloadStatus option"

record Content =
  content_id :: ident
  content_postId :: ident
  content_text :: string
  content_authorName :: "string option"
  content_authorId :: "string option"
  content_originalDate :: "int option"
  content_viewCount :: "int option"
  content_likeCount :: "int option"

record AIResult =
  ai_id :: ident
  ai_postId :: ident
  ai_labels :: "string list"
  ai_summary :: string
  ai_groupId :: "ident option"
  ai_contentType :: "string option"
  ai_modelVersion :: string

record Group =
  group_id :: ident
  group_name :: string
  group_description :: "string option"
  group_postCount :: int

record DownloadTask =
  task_id :: ident
  task_postId :: ident
  task_status :: TaskStatus
  task_progress :: rat
  task_retryCount :: nat
  task_errorMessage :: "string option"

subsection \<open>Results of the remote services\<close>

record MediaRef =
  ref_type :: MediaType
  ref_url :: string
  ref_fileSize :: "int option"

record CrawledContent =
  cc_title :: string
  cc_text :: string
  cc_authorName :: "string option"
  cc_authorId :: "string option"
  cc_originalDate :: "int option"
  cc_viewCount :: "int option"
  cc_likeCount :: "int option"
  cc_media :: "MediaRef list"

record CrawlResponse =
  crawl_success :: bool
  crawl_data :: "CrawledContent option"

record CrawlResult =
  cr_success :: bool
  cr_content :: "CrawledContent option"
  cr_errorMessage :: "string option"

record AnalyzeRequest =
  req_title :: "string option"
  req_text :: string
  req_mediaCount :: nat

record AnalyzeData =
  ad_labels :: "string list"
  ad_summary :: string
  ad_contentType :: "string option"
  ad_suggestedGroupName :: "string option"
  ad_modelVersion :: string

record AnalyzeResponse =
  analyze_success :: bool
  analyze_data :: "AnalyzeData option"

record AnalysisServiceResult =
  asr_success :: bool
  asr_aiResult :: "AIResult option"
  asr_errorMessage :: "string option"

record DownloadResult =
  dr_success :: bool
  dr_localPath :: "string option"
  dr_fileSize :: "int option"
  dr_errorMessage :: "string option"

text \<open>
  What \<^verbatim>\<open>parseInt(contentLength, 10)\<close> can hand back from the HEAD probe of
  \<^verbatim>\<open>checkRemoteFileSize\<close>: \<^verbatim>\<open>null\<close> (no header, or the request threw), \<^verbatim>\<open>NaN\<close>
  (a header that is not a number) or an integer.
\<close>

datatype RemoteSize = NoSize | NotANumber | Size int

text \<open>
  The environment of one pipeline run: the answers of the network, of the file system and
  of the database engine. \<open>Inl\<close> is a thrown exception with its message.
  \<open>insertAIResultError postId\<close> is the error, if any, with which \<^verbatim>\<open>db.runAsync\<close> rejects
  the \<^verbatim>\<open>INSERT INTO ai_results\<close> of \<^verbatim>\<open>createAIResult\<close> for that post during the run.
\<close>

record env =
  xhsApi_crawl :: "string \<Rightarrow> string + CrawlResponse"
  xhsApi_analyze :: "AnalyzeRequest \<Rightarrow> string + AnalyzeResponse"
  headContentLength :: "string \<Rightarrow> RemoteSize"
  downloadAsync :: "string \<Rightarrow> string \<Rightarrow> string + (string \<times> int option) option"
  documentDirectory :: string
  insertAIResultError :: "ident \<Rightarrow> string option"

subsection \<open>Progress notifications and listeners\<close>

type_synonym notification = "ident \<times> rat \<times> PostDownloadStatus"

datatype 'a completion = Returned 'a | Thrown string

text \<open>
  A listener is a callback that returns or throws; \<open>listenerRef\<close> is the identity of the
  function object, which is what the \<^verbatim>\<open>Set\<close> of listeners compares.
\<close>

record Listener =
  listenerRef :: nat
  callback :: "notification \<Rightarrow> unit completion"

subsection \<open>The store and the logs of observable effects\<close>

text \<open>
  The tables of the SQLite database, the identifier counter, and the logs that record
  effects leaving the process: every call of \<^verbatim>\<open>notifyProgress\<close>, every invocation of a
  listener, every transfer started by \<^verbatim>\<open>downloadFile\<close>, every request sent to the
  analyze service and every call of \<^verbatim>\<open>incrementGroupPostCount\<close>. The statements of
  the repositories are taken not to throw, with one exception: the insert of
  \<^verbatim>\<open>createAIResult\<close>, which stands behind the update of the group counter in
  \<^verbatim>\<open>analyzePost\<close> and throws when the environment says so or when the table holds a row
  of the post already (\<^verbatim>\<open>post_id TEXT NOT NULL UNIQUE\<close> in \<^verbatim>\<open>schema.ts\<close>).
\<close>

record world =
  tbl_posts :: "Post list"
  tbl_content :: "Content list"
  tbl_media :: "Media list"
  tbl_groups :: "Group list"
  tbl_ai_results :: "AIResult list"
  tbl_download_tasks :: "DownloadTask list"
  nextId :: ident
  published :: "notification list"
  invoked :: "(nat \<times> notification) list"
  transfers :: "(string \<times> string) list"
  analyzeCalls :: "AnalyzeRequest list"
  groupIncrements :: "ident list"

section \<open>Download queue\<close>

text \<open>
  \<^verbatim>\<open>priority\<close> and \<^verbatim>\<open>addedAt\<close> are of type \<^verbatim>\<open>number\<close>. The callers pass the integers
  \<open>0\<close> and \<open>1\<close> as priority, and \<^verbatim>\<open>addedAt\<close> is \<^verbatim>\<open>Date.now()\<close>, an integer number of
  milliseconds, so both are integers here; a priority of \<^verbatim>\<open>NaN\<close> has no counterpart.
\<close>

record DownloadQueueItem =
  item_postId :: ident
  priority :: int
  addedAt :: int

record scheduler =
  downloadQueue :: "DownloadQueueItem list"
  isProcessing :: bool
  dispatched :: "ident list"

text \<open>The comparator handed to \<^verbatim>\<open>downloadQueue.sort\<close>.\<close>

definition compareItems :: "DownloadQueueItem \<Rightarrow> DownloadQueueItem \<Rightarrow> int" where
  "compareItems a b =
     (if priority a \<noteq> priority b then priority b - priority a else addedAt a - addedAt b)"

text \<open>
  \<^verbatim>\<open>Array.prototype.sort\<close> is a stable sort. For a comparator that is a total preorder
  there is one stably sorted arrangement of an array, so the sort is modelled by stable
  insertion: elements are inserted from the last to the first, each in front of the first
  element it does not come after.
\<close>

fun insertItem :: "DownloadQueueItem \<Rightarrow> DownloadQueueItem list \<Rightarrow> DownloadQueueItem list" where
  "insertItem x [] = [x]"
| "insertItem x (y # ys) =
     (if compareItems x y \<le> 0 then x # y # ys else y # insertItem x ys)"

definition sortQueue :: "DownloadQueueItem list \<Rightarrow> DownloadQueueItem list" where
  "sortQueue xs = foldr insertItem xs []"

text \<open>
  One turn of the \<^verbatim>\<open>while\<close> loop of \<^verbatim>\<open>processQueue\<close> up to its \<^verbatim>\<open>await\<close>: the head
  is shifted off and handed to \<^verbatim>\<open>downloadPost\<close> (logged in \<open>dispatched\<close>), or the loop
  ends and the flag is cleared.
\<close>

definition loopTurn :: "scheduler \<Rightarrow> scheduler" where
  "loopTurn s =
     (case downloadQueue s of
        [] \<Rightarrow> s\<lparr>isProcessing := False\<rparr>
      | item # rest \<Rightarrow>
          s\<lparr>downloadQueue := rest, dispatched := dispatched s @ [item_postId item]\<rparr>)"

definition processQueue :: "scheduler \<Rightarrow> scheduler" where
  "processQueue s =
     (if isProcessing s \<or> downloadQueue s = [] then s
      else loopTurn (s\<lparr>isProcessing := True\<rparr>))"

text \<open>\<open>now\<close> is the value of \<^verbatim>\<open>Date.now()\<close> at the call.\<close>

definition queueDownload :: "ident \<Rightarrow> int \<Rightarrow> int \<Rightarrow> scheduler \<Rightarrow> scheduler" where
  "queueDownload postId prio now s =
     (if \<exists>item \<in> set (downloadQueue s). item_postId item = postId then s
      else processQueue
             (s\<lparr>downloadQueue :=
                  sortQueue (downloadQueue s @
                    [\<lparr>item_postId = postId, priority = prio, addedAt = now\<rparr>])\<rparr>))"

text \<open>
  The loop resumes when the awaited \<^verbatim>\<open>downloadPost\<close> settles (its result and its
  exceptions are discarded by the loop).
\<close>

definition downloadSettled :: "scheduler \<Rightarrow> scheduler" where
  "downloadSettled s = (if isProcessing s then loopTurn s else s)"

datatype queueEvent = Enqueue ident int int | Settled

fun queueStep :: "scheduler \<Rightarrow> queueEvent \<Rightarrow> scheduler" where
  "queueStep s (Enqueue postId prio now) = queueDownload postId prio now s"
| "queueStep s Settled = downloadSettled s"

definition idleScheduler :: scheduler where
  "idleScheduler = \<lparr>downloadQueue = [], isProcessing = False, dispatched = []\<rparr>"

definition runQueue :: "queueEvent list \<Rightarrow> scheduler" where
  "runQueue evs = foldl queueStep idleScheduler evs"

text \<open>\<open>goesBefore a b\<close>: higher priority first, then the earlier \<open>addedAt\<close>.\<close>

definition goesBefore :: "DownloadQueueItem \<Rightarrow> DownloadQueueItem \<Rightarrow> bool" where
  "goesBefore a b \<longleftrightarrow>
     priority a > priority b \<or> (priority a = priority b \<and> addedAt a \<le> addedAt b)"

section \<open>Progress broadcaster\<close>

definition addProgressListener :: "Listener \<Rightarrow> Listener list \<Rightarrow> Listener list" where
  "addProgressListener l ls =
     (if listenerRef l \<in> listenerRef ` set ls then ls else ls @ [l])"

text \<open>
  \<^verbatim>\<open>progressListeners.forEach((listener) => listener(postId, progress, status))\<close>:
  the listeners are called in insertion order; an exception of a callback leaves
  \<^verbatim>\<open>forEach\<close> at once.
\<close>

fun forEachListener :: "Listener list \<Rightarrow> notification \<Rightarrow> world \<Rightarrow> unit completion \<times> world" where
  "forEachListener [] n w = (Returned (), w)"
| "forEachListener (l # ls) n w =
     (let w' = w\<lparr>invoked := invoked w @ [(listenerRef l, n)]\<rparr>
      in case callback l n of
           Thrown e \<Rightarrow> (Thrown e, w')
         | Returned u \<Rightarrow> forEachListener ls n w')"

definition notifyProgress ::
  "Listener list \<Rightarrow> ident \<Rightarrow> rat \<Rightarrow> PostDownloadStatus \<Rightarrow> world \<Rightarrow> unit completion \<times> world" where
  "notifyProgress ls postId progress status w =
     forEachListener ls (postId, progress, status)
       (w\<lparr>published := published w @ [(postId, progress, status)]\<rparr>)"

section \<open>Persistence gateway\<close>

text \<open>
  The repositories issue one SQL statement per call. A table is the list of its rows in
  insertion order; \<^verbatim>\<open>SELECT ... WHERE\<close> with \<^verbatim>\<open>getFirstAsync\<close> is \<open>find\<close>, and
  \<^verbatim>\<open>UPDATE ... WHERE id = ?\<close> rewrites every row with that id.
\<close>

definition getPostById :: "ident \<Rightarrow> world \<Rightarrow> Post option" where
  "getPostById i w = find (\<lambda>p. post_id p = i) (tbl_posts w)"

definition updatePostStatus :: "ident \<Rightarrow> PostDownloadStatus \<Rightarrow> world \<Rightarrow> world" where
  "updatePostStatus i status w =
     w\<lparr>tbl_posts :=
          map (\<lambda>p. if post_id p = i then p\<lparr>post_downloadStatus := status\<rparr> else p) (tbl_posts w)\<rparr>"

definition getContentByPostId :: "ident \<Rightarrow> world \<Rightarrow> Content option" where
  "getContentByPostId postId w = find (\<lambda>c. content_postId c = postId) (tbl_content w)"

definition createContent :: "ident \<Rightarrow> CrawledContent \<Rightarrow> world \<Rightarrow> world" where
  "createContent postId content w =
     w\<lparr>tbl_content := tbl_content w @
          [\<lparr>content_id = nextId w, content_postId = postId, content_text = cc_text content,
            content_authorName = cc_authorName content, content_authorId = cc_authorId content,
            content_originalDate = cc_originalDate content,
            content_viewCount = cc_viewCount content,
            content_likeCount = cc_likeCount content\<rparr>],
        nextId := Suc (nextId w)\<rparr>"

definition createMedia :: "CreateMediaInput \<Rightarrow> world \<Rightarrow> Media \<times> world" where
  "createMedia input w =
     (let media = \<lparr>media_id = nextId w, media_postId = cmi_postId input,
                    media_type = cmi_type input, media_remoteUrl = cmi_remoteUrl input,
                    media_localPath = None, media_fileSize = cmi_fileSize input,
                    media_downloadStatus = MediaPending,
                    media_sortOrder = cmi_sortOrder input\<rparr>
      in (media, w\<lparr>tbl_media := tbl_media w @ [media], nextId := Suc (nextId w)\<rparr>))"

fun createMediaBatch :: "CreateMediaInput list \<Rightarrow> world \<Rightarrow> Media list \<times> world" where
  "createMediaBatch [] w = ([], w)"
| "createMediaBatch (input # inputs) w =
     (let (media, w1) = createMedia input w;
          (results, w2) = createMediaBatch inputs w1
      in (media # results, w2))"

definition updateMedia :: "ident \<Rightarrow> UpdateMediaInput \<Rightarrow> world \<Rightarrow> world" where
  "updateMedia i input w =
     w\<lparr>tbl_media :=
          map (\<lambda>m. if media_id m = i
                    then m\<lparr>media_localPath :=
                              (case umi_localPath input of None \<Rightarrow> media_localPath m
                               | Some p \<Rightarrow> Some p),
                            media_fileSize :=
                              (case umi_fileSize input of None \<Rightarrow> media_fileSize m
                               | Some n \<Rightarrow> Some n),
                            media_downloadStatus :=
                              (case umi_downloadStatus input of None \<Rightarrow> media_downloadStatus m
                               | Some s \<Rightarrow> s)\<rparr>
                    else m)
            (tbl_media w)\<rparr>"

text \<open>
  \<^verbatim>\<open>if (localPath) ...\<close> and \<^verbatim>\<open>if (fileSize) ...\<close> test truthiness: an empty path and
  a size of zero are not written.
\<close>

definition updateMediaStatus ::
  "ident \<Rightarrow> MediaDownloadStatus \<Rightarrow> string option \<Rightarrow> int option \<Rightarrow> world \<Rightarrow> world" where
  "updateMediaStatus i status localPath fileSize w =
     updateMedia i
       \<lparr>umi_localPath = (case localPath of Some p \<Rightarrow> (if p \<noteq> [] then Some p else None)
                          | None \<Rightarrow> None),
        umi_fileSize = (case fileSize of Some n \<Rightarrow> (if n \<noteq> 0 then Some n else None)
                         | None \<Rightarrow> None),
        umi_downloadStatus = Some status\<rparr> w"


definition getMediaCountByPostId :: "ident \<Rightarrow> world \<Rightarrow> nat" where
  "getMediaCountByPostId postId w = length (filter (\<lambda>m. media_postId m = postId) (tbl_media w))"

definition getAIResultByPostId :: "ident \<Rightarrow> world \<Rightarrow> AIResult option" where
  "getAIResultByPostId postId w = find (\<lambda>r. ai_postId r = postId) (tbl_ai_results w)"

text \<open>
  \<^verbatim>\<open>createAIResult\<close>: the \<^verbatim>\<open>INSERT\<close> throws when the database engine fails, or when a
  row of the post exists (the column \<^verbatim>\<open>post_id\<close> is unique); nothing is written then.
\<close>

definition createAIResult ::
  "env \<Rightarrow> ident \<Rightarrow> AnalyzeData \<Rightarrow> ident option \<Rightarrow> world \<Rightarrow> string + AIResult \<times> world" where
  "createAIResult e postId d groupId w =
     (let aiResult = \<lparr>ai_id = nextId w, ai_postId = postId, ai_labels = ad_labels d,
                       ai_summary = ad_summary d, ai_groupId = groupId,
                       ai_contentType = ad_contentType d,
                       ai_modelVersion = ad_modelVersion d\<rparr>
      in case insertAIResultError e postId of
           Some msg \<Rightarrow> Inl msg
         | None \<Rightarrow>
             (if \<exists>r \<in> set (tbl_ai_results w). ai_postId r = postId
              then Inl ''UNIQUE constraint failed: ai_results.post_id''
              else Inr (aiResult,
                        w\<lparr>tbl_ai_results := tbl_ai_results w @ [aiResult],
                          nextId := Suc (nextId w)\<rparr>)))"

definition getGroupByName :: "string \<Rightarrow> world \<Rightarrow> Group option" where
  "getGroupByName name w = find (\<lambda>g. group_name g = name) (tbl_groups w)"

definition createGroup :: "string \<Rightarrow> world \<Rightarrow> Group \<times> world" where
  "createGroup name w =
     (let g = \<lparr>group_id = nextId w, group_name = name, group_description = None,
                group_postCount = 0\<rparr>
      in (g, w\<lparr>tbl_groups := tbl_groups w @ [g], nextId := Suc (nextId w)\<rparr>))"

definition getOrCreateGroup :: "string \<Rightarrow> world \<Rightarrow> Group \<times> world" where
  "getOrCreateGroup name w =
     (case getGroupByName name w of Some existing \<Rightarrow> (existing, w) | None \<Rightarrow> createGroup name w)"

definition incrementGroupPostCount :: "ident \<Rightarrow> world \<Rightarrow> world" where
  "incrementGroupPostCount i w =
     w\<lparr>tbl_groups :=
          map (\<lambda>g. if group_id g = i then g\<lparr>group_postCount := group_postCount g + 1\<rparr> else g)
            (tbl_groups w),
        groupIncrements := groupIncrements w @ [i]\<rparr>"

text \<open>
  \<^verbatim>\<open>recalculateGroupPostCount\<close> sets the counter of a group to the number of analysis
  results that name the group.
\<close>

definition recalculateGroupPostCount :: "ident \<Rightarrow> world \<Rightarrow> world" where
  "recalculateGroupPostCount i w =
     w\<lparr>tbl_groups :=
          map (\<lambda>g. if group_id g = i
                    then g\<lparr>group_postCount :=
                             int (length (filter (\<lambda>r. ai_groupId r = Some i) (tbl_ai_results w)))\<rparr>
                    else g)
            (tbl_groups w)\<rparr>"

section \<open>File manager\<close>

definition MAX_VIDEO_SIZE_BYTES :: int where
  "MAX_VIDEO_SIZE_BYTES = 100 * 1024 * 1024"

fun string_of_nat :: "nat \<Rightarrow> string" where
  "string_of_nat n =
     (if n < 10 then [char_of (48 + n)]
      else string_of_nat (n div 10) @ [char_of (48 + n mod 10)])"

definition getMediaDirectory :: "env \<Rightarrow> MediaType \<Rightarrow> string" where
  "getMediaDirectory e t =
     documentDirectory e @ ''media/'' @ (if t = Image then ''images/'' else ''videos/'')"

definition generateMediaFilename :: "ident \<Rightarrow> nat \<Rightarrow> MediaType \<Rightarrow> string" where
  "generateMediaFilename postId index t =
     string_of_nat postId @ ''_'' @ string_of_nat index @ ''.'' @
       (if t = Image then ''jpg'' else ''mp4'')"

definition getMediaPath :: "env \<Rightarrow> ident \<Rightarrow> nat \<Rightarrow> MediaType \<Rightarrow> string" where
  "getMediaPath e postId index t = getMediaDirectory e t @ generateMediaFilename postId index t"

definition checkRemoteFileSize :: "env \<Rightarrow> string \<Rightarrow> RemoteSize" where
  "checkRemoteFileSize e url = headContentLength e url"

text \<open>
  \<^verbatim>\<open>if (size === null) return true; return size <= MAX_VIDEO_SIZE_BYTES;\<close>
  A comparison with \<^verbatim>\<open>NaN\<close> is false.
\<close>

definition isVideoWithinLimit :: "env \<Rightarrow> string \<Rightarrow> bool" where
  "isVideoWithinLimit e url =
     (case checkRemoteFileSize e url of
        NoSize \<Rightarrow> True
      | NotANumber \<Rightarrow> False
      | Size n \<Rightarrow> n \<le> MAX_VIDEO_SIZE_BYTES)"

text \<open>
  \<^verbatim>\<open>downloadFile\<close> catches every exception of the transfer and reports it in its result.
  The transfer it starts is logged in \<open>transfers\<close>.
\<close>

definition downloadFile :: "env \<Rightarrow> string \<Rightarrow> string \<Rightarrow> world \<Rightarrow> DownloadResult \<times> world" where
  "downloadFile e url localPath w =
     (let w' = w\<lparr>transfers := transfers w @ [(url, localPath)]\<rparr>
      in case downloadAsync e url localPath of
           Inl msg \<Rightarrow>
             (\<lparr>dr_success = False, dr_localPath = None, dr_fileSize = None,
               dr_errorMessage = Some msg\<rparr>, w')
         | Inr None \<Rightarrow>
             (\<lparr>dr_success = False, dr_localPath = None, dr_fileSize = None,
               dr_errorMessage = Some ''Download returned no result''\<rparr>, w')
         | Inr (Some (uri, fileSize)) \<Rightarrow>
             (\<lparr>dr_success = True, dr_localPath = Some uri, dr_fileSize = fileSize,
               dr_errorMessage = None\<rparr>, w'))"

section \<open>Binary64 arithmetic of the progress fractions\<close>

text \<open>
  A JavaScript \<^verbatim>\<open>number\<close> is an IEEE 754 binary64 value, and a literal, a sum, a product
  and a quotient are each rounded to the nearest such value, ties to the even significand.
  \<open>binary64\<close> is that rounding on the rationals, for the normal range (the fractions of
  the pipeline lie between \<open>2 ^ -1022\<close> and \<open>1\<close>, or are \<open>0\<close>).
\<close>

function bitLength :: "int \<Rightarrow> int" where
  "bitLength n = (if n \<le> 0 then 0 else 1 + bitLength (n div 2))"
  by pat_completeness auto
termination
  by (relation "measure nat") auto

definition pow2 :: "int \<Rightarrow> rat" where
  "pow2 k = (if 0 \<le> k then 2 ^ nat k else 1 / 2 ^ nat (- k))"

text \<open>\<open>binade x\<close> is the exponent \<open>e\<close> with \<open>2 ^ e \<le> x < 2 ^ (e + 1)\<close>, for \<open>x > 0\<close>.\<close>

definition binade :: "rat \<Rightarrow> int" where
  "binade x =
     (let (p, q) = quotient_of x;
          d = bitLength p - bitLength q
      in if pow2 d \<le> x then d else d - 1)"

definition roundHalfEven :: "rat \<Rightarrow> int" where
  "roundHalfEven q =
     (let f = \<lfloor>q\<rfloor>; r = q - of_int f
      in if r < 1 / 2 then f
         else if 1 / 2 < r then f + 1
         else if even f then f else f + 1)"

definition binary64 :: "rat \<Rightarrow> rat" where
  "binary64 x =
     (if x = 0 then 0
      else if x < 0 then - (let ulp = pow2 (binade (- x) - 52)
                            in of_int (roundHalfEven (- x / ulp)) * ulp)
      else (let ulp = pow2 (binade x - 52) in of_int (roundHalfEven (x / ulp)) * ulp))"

section \<open>Crawler and analysis services\<close>

definition crawlPost :: "env \<Rightarrow> string \<Rightarrow> CrawlResult" where
  "crawlPost e url =
     (case xhsApi_crawl e url of
        Inl msg \<Rightarrow> \<lparr>cr_success = False, cr_content = None, cr_errorMessage = Some msg\<rparr>
      | Inr response \<Rightarrow>
          (if \<not> crawl_success response \<or> crawl_data response = None
           then \<lparr>cr_success = False, cr_content = None,
                 cr_errorMessage = Some ''Crawl failed: no data returned''\<rparr>
           else \<lparr>cr_success = True, cr_content = crawl_data response,
                 cr_errorMessage = None\<rparr>))"

text \<open>
  \<^verbatim>\<open>analyzePost\<close>: the body of its \<^verbatim>\<open>try\<close> block. The calls in it that throw in this
  model are \<^verbatim>\<open>xhsApi.analyze\<close> and \<^verbatim>\<open>createAIResult\<close>; the \<^verbatim>\<open>catch\<close> turns the
  exception into a result and undoes nothing: when the insert fails, the group that was
  created and the increment of its counter stay.
\<close>

definition analyzePost :: "env \<Rightarrow> ident \<Rightarrow> world \<Rightarrow> AnalysisServiceResult \<times> world" where
  "analyzePost e postId w =
     (case getAIResultByPostId postId w of
        Some existing \<Rightarrow>
          (\<lparr>asr_success = True, asr_aiResult = Some existing, asr_errorMessage = None\<rparr>, w)
      | None \<Rightarrow>
          (case getContentByPostId postId w of
             None \<Rightarrow>
               (\<lparr>asr_success = False, asr_aiResult = None,
                 asr_errorMessage = Some ''No content available for analysis''\<rparr>, w)
           | Some content \<Rightarrow>
               (let request =
                      \<lparr>req_title = (case getPostById postId w of None \<Rightarrow> None
                                     | Some post \<Rightarrow> post_title post),
                       req_text = content_text content,
                       req_mediaCount = getMediaCountByPostId postId w\<rparr>;
                    w1 = w\<lparr>analyzeCalls := analyzeCalls w @ [request]\<rparr>
                in case xhsApi_analyze e request of
                     Inl msg \<Rightarrow>
                       (\<lparr>asr_success = False, asr_aiResult = None,
                         asr_errorMessage = Some msg\<rparr>, w1)
                   | Inr response \<Rightarrow>
                       (case (if analyze_success response then analyze_data response else None) of
                          None \<Rightarrow>
                            (\<lparr>asr_success = False, asr_aiResult = None,
                              asr_errorMessage = Some ''Analysis API returned no data''\<rparr>, w1)
                        | Some d \<Rightarrow>
                            (let (groupId, w2) =
                                   (case ad_suggestedGroupName d of
                                      None \<Rightarrow> (None, w1)
                                    | Some name \<Rightarrow>
                                        (if name = [] then (None, w1)
                                         else (let (g, wg) = getOrCreateGroup name w1
                                               in (Some (group_id g),
                                                   incrementGroupPostCount (group_id g) wg))))
                             in case createAIResult e postId d groupId w2 of
                                  Inl msg \<Rightarrow>
                                    (\<lparr>asr_success = False, asr_aiResult = None,
                                      asr_errorMessage = Some msg\<rparr>, w2)
                                | Inr (aiResult, w3) \<Rightarrow>
                                    (\<lparr>asr_success = True, asr_aiResult = Some aiResult,
                                      asr_errorMessage = None\<rparr>, w3))))))"

text \<open>
  \<^verbatim>\<open>analyzePost\<close> is an \<^verbatim>\<open>async\<close> function: while it waits for the answer of
  \<^verbatim>\<open>xhsApi.analyze\<close>, other calls run. \<open>analyzePostUntilRequest\<close> is the part of the
  function up to that \<^verbatim>\<open>await\<close>, \<open>analyzePostAfterRequest\<close> the part behind it.
\<close>

datatype analysisProgress = Decided AnalysisServiceResult | Requested AnalyzeRequest

definition analyzePostUntilRequest :: "ident \<Rightarrow> world \<Rightarrow> analysisProgress \<times> world" where
  "analyzePostUntilRequest postId w =
     (case getAIResultByPostId postId w of
        Some existing \<Rightarrow>
          (Decided \<lparr>asr_success = True, asr_aiResult = Some existing,
                    asr_errorMessage = None\<rparr>, w)
      | None \<Rightarrow>
          (case getContentByPostId postId w of
             None \<Rightarrow>
               (Decided \<lparr>asr_success = False, asr_aiResult = None,
                         asr_errorMessage = Some ''No content available for analysis''\<rparr>, w)
           | Some content \<Rightarrow>
               (let request =
                      \<lparr>req_title = (case getPostById postId w of None \<Rightarrow> None
                                     | Some post \<Rightarrow> post_title post),
                       req_text = content_text content,
                       req_mediaCount = getMediaCountByPostId postId w\<rparr>
                in (Requested request, w\<lparr>analyzeCalls := analyzeCalls w @ [request]\<rparr>))))"

definition analyzePostAfterRequest ::
  "env \<Rightarrow> ident \<Rightarrow> AnalyzeRequest \<Rightarrow> world \<Rightarrow> AnalysisServiceResult \<times> world" where
  "analyzePostAfterRequest e postId request w1 =
     (case xhsApi_analyze e request of
        Inl msg \<Rightarrow>
          (\<lparr>asr_success = False, asr_aiResult = None, asr_errorMessage = Some msg\<rparr>, w1)
      | Inr response \<Rightarrow>
          (case (if analyze_success response then analyze_data response else None) of
             None \<Rightarrow>
               (\<lparr>asr_success = False, asr_aiResult = None,
                 asr_errorMessage = Some ''Analysis API returned no data''\<rparr>, w1)
           | Some d \<Rightarrow>
               (let (groupId, w2) =
                      (case ad_suggestedGroupName d of
                         None \<Rightarrow> (None, w1)
                       | Some name \<Rightarrow>
                           (if name = [] then (None, w1)
                            else (let (g, wg) = getOrCreateGroup name w1
                                  in (Some (group_id g),
                                      incrementGroupPostCount (group_id g) wg))))
                in case createAIResult e postId d groupId w2 of
                     Inl msg \<Rightarrow>
                       (\<lparr>asr_success = False, asr_aiResult = None,
                         asr_errorMessage = Some msg\<rparr>, w2)
                   | Inr (aiResult, w3) \<Rightarrow>
                       (\<lparr>asr_success = True, asr_aiResult = Some aiResult,
                         asr_errorMessage = None\<rparr>, w3))))"

section \<open>Download manager\<close>

definition andThen ::
  "'a completion \<times> world \<Rightarrow> ('a \<Rightarrow> world \<Rightarrow> 'b completion \<times> world) \<Rightarrow> 'b completion \<times> world" where
  "andThen r k = (case r of (Returned a, w) \<Rightarrow> k a w | (Thrown e, w) \<Rightarrow> (Thrown e, w))"

text \<open>
  \<^verbatim>\<open>saveContent\<close>. The block that follows \<^verbatim>\<open>createContent\<close> in the source reads the post
  and writes nothing.
\<close>

definition saveContent :: "ident \<Rightarrow> CrawledContent \<Rightarrow> world \<Rightarrow> world" where
  "saveContent postId content w =
     (case getContentByPostId postId w of
        Some existing \<Rightarrow> w
      | None \<Rightarrow> createContent postId content w)"

text \<open>
  The callback that \<^verbatim>\<open>downloadPost\<close> hands to \<^verbatim>\<open>downloadMedia\<close>:
  \<^verbatim>\<open>0.4 + mediaProgress * 0.45\<close>. \<open>rnd\<close> is the rounding of the arithmetic, \<open>binary64\<close>
  in the running program.
\<close>

definition onProgress ::
  "(rat \<Rightarrow> rat) \<Rightarrow> Listener list \<Rightarrow> ident \<Rightarrow> rat \<Rightarrow> world \<Rightarrow> unit completion \<times> world" where
  "onProgress rnd ls postId mediaProgress w =
     notifyProgress ls postId
       (rnd (rnd (2 / 5) + rnd (mediaProgress * rnd (9 / 20)))) PostDownloading w"

definition toCreateMediaInputs :: "ident \<Rightarrow> MediaRef list \<Rightarrow> CreateMediaInput list" where
  "toCreateMediaInputs postId mediaItems =
     map (\<lambda>(index, item).
            \<lparr>cmi_postId = postId, cmi_type = ref_type item, cmi_remoteUrl = ref_url item,
             cmi_sortOrder = index, cmi_fileSize = ref_fileSize item\<rparr>)
       (enumerate 0 mediaItems)"

text \<open>
  The \<^verbatim>\<open>for\<close> loop of \<^verbatim>\<open>downloadMedia\<close> over the created records; \<open>len\<close> is
  \<^verbatim>\<open>mediaRecords.length\<close>. Inside the \<^verbatim>\<open>try\<close> only the \<^verbatim>\<open>onProgress\<close> of the skip
  branch can throw; the \<^verbatim>\<open>catch\<close> then marks the record failed and the loop goes on to
  the increment and the \<^verbatim>\<open>onProgress\<close> below the \<^verbatim>\<open>try\<close>, which is not guarded.
\<close>

fun downloadMediaLoop ::
  "(rat \<Rightarrow> rat) \<Rightarrow> env \<Rightarrow> Listener list \<Rightarrow> ident \<Rightarrow> nat \<Rightarrow> Media list \<Rightarrow> nat \<Rightarrow> bool \<Rightarrow> world
     \<Rightarrow> bool completion \<times> world" where
  "downloadMediaLoop rnd e ls postId len [] completedCount hasFailures w =
     (Returned (\<not> hasFailures), w)"
| "downloadMediaLoop rnd e ls postId len (media # rest) completedCount hasFailures w =
     (if media_type media = Video \<and> \<not> isVideoWithinLimit e (media_remoteUrl media)
      then
        (let w1 = updateMediaStatus (media_id media) MediaSkipped None None w;
             c1 = completedCount + 1
         in case onProgress rnd ls postId (rnd (of_nat c1 / of_nat len)) w1 of
              (Returned u, w2) \<Rightarrow>
                downloadMediaLoop rnd e ls postId len rest c1 hasFailures w2
            | (Thrown err, w2) \<Rightarrow>
                (let w3 = updateMediaStatus (media_id media) MediaFailed None None w2;
                     c2 = c1 + 1
                 in andThen (onProgress rnd ls postId (rnd (of_nat c2 / of_nat len)) w3)
                      (\<lambda>u. downloadMediaLoop rnd e ls postId len rest c2 True)))
      else
        (let localPath = getMediaPath e postId (media_sortOrder media) (media_type media);
             w1 = updateMediaStatus (media_id media) MediaDownloading None None w;
             (result, w2) = downloadFile e (media_remoteUrl media) localPath w1;
             ok = (dr_success result \<and> dr_localPath result \<noteq> None \<and> dr_localPath result \<noteq> Some []);
             w3 = (if ok
                   then updateMediaStatus (media_id media) MediaCompleted
                          (dr_localPath result) (dr_fileSize result) w2
                   else updateMediaStatus (media_id media) MediaFailed None None w2);
             c1 = completedCount + 1
         in andThen (onProgress rnd ls postId (rnd (of_nat c1 / of_nat len)) w3)
              (\<lambda>u. downloadMediaLoop rnd e ls postId len rest c1 (hasFailures \<or> \<not> ok))))"

definition downloadMedia ::
  "(rat \<Rightarrow> rat) \<Rightarrow> env \<Rightarrow> Listener list \<Rightarrow> ident \<Rightarrow> MediaRef list \<Rightarrow> world
     \<Rightarrow> bool completion \<times> world" where
  "downloadMedia rnd e ls postId mediaItems w =
     (if mediaItems = []
      then andThen (onProgress rnd ls postId 1 w) (\<lambda>u w'. (Returned True, w'))
      else (let (mediaRecords, w1) = createMediaBatch (toCreateMediaInputs postId mediaItems) w
            in downloadMediaLoop rnd e ls postId (length mediaRecords) mediaRecords 0 False w1))"

text \<open>The body of the \<^verbatim>\<open>try\<close> block of \<^verbatim>\<open>downloadPost\<close>.\<close>

definition downloadPostBody ::
  "(rat \<Rightarrow> rat) \<Rightarrow> env \<Rightarrow> Listener list \<Rightarrow> ident \<Rightarrow> Post \<Rightarrow> world \<Rightarrow> bool completion \<times> world" where
  "downloadPostBody rnd e ls postId post w =
     (let crawlResult = crawlPost e (post_url post)
      in case (if cr_success crawlResult then cr_content crawlResult else None) of
           None \<Rightarrow>
             andThen (notifyProgress ls postId 0 PostFailed (updatePostStatus postId PostFailed w))
               (\<lambda>u w'. (Returned False, w'))
         | Some content \<Rightarrow>
             andThen (notifyProgress ls postId (rnd (3 / 10)) PostDownloading w) (\<lambda>u w1.
             andThen (notifyProgress ls postId (rnd (2 / 5)) PostDownloading
                        (saveContent postId content w1)) (\<lambda>u w2.
             andThen (downloadMedia rnd e ls postId (cc_media content) w2) (\<lambda>mediaSuccess w3.
             andThen (notifyProgress ls postId (rnd (17 / 20)) PostDownloading w3) (\<lambda>u w4.
               (let (analysis, w5) = analyzePost e postId w4;
                    finalStatus = (if mediaSuccess then PostCompleted else PostPartial)
                in andThen (notifyProgress ls postId 1 finalStatus
                              (updatePostStatus postId finalStatus w5))
                     (\<lambda>u w6. (Returned True, w6))))))))"

text \<open>
  \<^verbatim>\<open>downloadPost\<close>: the first status update and notification stand before the \<^verbatim>\<open>try\<close>;
  the \<^verbatim>\<open>catch\<close> marks the post failed and notifies again, itself unguarded. A \<open>Thrown\<close>
  result is the rejection of the returned promise.
\<close>

definition downloadPost ::
  "(rat \<Rightarrow> rat) \<Rightarrow> env \<Rightarrow> Listener list \<Rightarrow> ident \<Rightarrow> world \<Rightarrow> bool completion \<times> world" where
  "downloadPost rnd e ls postId w =
     (case getPostById postId w of
        None \<Rightarrow> (Returned False, w)
      | Some post \<Rightarrow>
          andThen (notifyProgress ls postId 0 PostDownloading
                     (updatePostStatus postId PostDownloading w)) (\<lambda>u w1.
            (case downloadPostBody rnd e ls postId post w1 of
               (Returned b, w2) \<Rightarrow> (Returned b, w2)
             | (Thrown err, w2) \<Rightarrow>
                 andThen (notifyProgress ls postId 0 PostFailed
                            (updatePostStatus postId PostFailed w2))
                   (\<lambda>u w3. (Returned False, w3)))))"

definition retryDownload ::
  "(rat \<Rightarrow> rat) \<Rightarrow> env \<Rightarrow> Listener list \<Rightarrow> ident \<Rightarrow> world \<Rightarrow> bool completion \<times> world" where
  "retryDownload rnd e ls postId w = downloadPost rnd e ls postId w"

record DownloadStatusReport =
  status :: PostDownloadStatus
  mediaTotal :: nat
  mediaCompleted :: nat
  mediaFailed :: nat


section \<open>Notions used in the statements\<close>

text \<open>Runs of the pipeline on one post, one after the other, each in its own environment.\<close>

fun pipelineRuns ::
  "(rat \<Rightarrow> rat) \<Rightarrow> (env \<times> Listener list) list \<Rightarrow> ident \<Rightarrow> world \<Rightarrow> world" where
  "pipelineRuns rnd [] postId w = w"
| "pipelineRuns rnd ((e, ls) # rest) postId w =
     pipelineRuns rnd rest postId (snd (downloadPost rnd e ls postId w))"

definition neverThrows :: "Listener list \<Rightarrow> bool" where
  "neverThrows ls \<longleftrightarrow> (\<forall>l \<in> set ls. \<forall>n. callback l n = Returned ())"

definition terminalStatus :: "PostDownloadStatus \<Rightarrow> bool" where
  "terminalStatus s \<longleftrightarrow> s = PostCompleted \<or> s = PostPartial \<or> s = PostFailed"

text \<open>The test of the skip branch of the loop, and the result of the transfer of a record.\<close>

definition oversizeVideo :: "env \<Rightarrow> Media \<Rightarrow> bool" where
  "oversizeVideo e m \<longleftrightarrow> media_type m = Video \<and> \<not> isVideoWithinLimit e (media_remoteUrl m)"

definition mediaLocalPath :: "env \<Rightarrow> ident \<Rightarrow> Media \<Rightarrow> string" where
  "mediaLocalPath e postId m = getMediaPath e postId (media_sortOrder m) (media_type m)"

definition transferSucceeds :: "env \<Rightarrow> ident \<Rightarrow> Media \<Rightarrow> bool" where
  "transferSucceeds e postId m =
     (case downloadAsync e (media_remoteUrl m) (mediaLocalPath e postId m) of
        Inr (Some (uri, fileSize)) \<Rightarrow> uri \<noteq> []
      | _ \<Rightarrow> False)"

definition mediaOutcome :: "env \<Rightarrow> ident \<Rightarrow> Media \<Rightarrow> MediaDownloadStatus" where
  "mediaOutcome e postId m =
     (if oversizeVideo e m then MediaSkipped
      else if transferSucceeds e postId m then MediaCompleted
      else MediaFailed)"

text \<open>The rows that a run appended to the media table.\<close>

definition runMedia :: "world \<Rightarrow> world \<Rightarrow> Media list" where
  "runMedia w w' = drop (length (tbl_media w)) (tbl_media w')"

definition statusView :: "Media list \<Rightarrow> (ident \<times> MediaDownloadStatus) list" where
  "statusView tbl = map (\<lambda>m. (media_id m, media_downloadStatus m)) tbl"

definition settle ::
  "env \<Rightarrow> ident \<Rightarrow> Media list \<Rightarrow> ident \<times> MediaDownloadStatus \<Rightarrow> ident \<times> MediaDownloadStatus" where
  "settle e postId ms row =
     (case find (\<lambda>m. media_id m = fst row) ms of
        None \<Rightarrow> row
      | Some m \<Rightarrow> (fst row, mediaOutcome e postId m))"

definition contentCount :: "ident \<Rightarrow> world \<Rightarrow> nat" where
  "contentCount postId w = length (filter (\<lambda>c. content_postId c = postId) (tbl_content w))"

definition queueInvariant :: "scheduler \<Rightarrow> bool" where
  "queueInvariant s \<longleftrightarrow>
     sorted_wrt goesBefore (downloadQueue s) \<and> (downloadQueue s \<noteq> [] \<longrightarrow> isProcessing s)"

section \<open>Concrete inputs\<close>

definition exampleEvents :: "queueEvent list" where
  "exampleEvents = [Enqueue 1 0 100, Enqueue 2 0 101, Enqueue 3 1 102, Enqueue 4 0 101]"

definition throwingListener :: Listener where
  "throwingListener = \<lparr>listenerRef = 1, callback = (\<lambda>n. Thrown ''listener failed'')\<rparr>"

definition quietListener :: Listener where
  "quietListener = \<lparr>listenerRef = 2, callback = (\<lambda>n. Returned ())\<rparr>"

definition examplePost :: Post where
  "examplePost = \<lparr>post_id = 1, post_url = ''https://www.xiaohongshu.com/explore/abc'',
                   post_urlHash = ''h1'', post_title = None,
                   post_downloadStatus = PostPending\<rparr>"

definition exampleWorld :: world where
  "exampleWorld =
     \<lparr>tbl_posts = [examplePost], tbl_content = [], tbl_media = [], tbl_groups = [],
      tbl_ai_results = [],
      tbl_download_tasks =
        [\<lparr>task_id = 2, task_postId = 1, task_status = TaskQueued, task_progress = 0,
          task_retryCount = 0, task_errorMessage = None\<rparr>],
      nextId = 3, published = [], invoked = [], transfers = [], analyzeCalls = [],
      groupIncrements = []\<rparr>"

definition pickyListener :: Listener where
  "pickyListener =
     \<lparr>listenerRef = 3,
      callback = (\<lambda>(postId, progress, status).
                    if progress = 0 then Returned () else Thrown ''render failed'')\<rparr>"

definition failureListener :: Listener where
  "failureListener =
     \<lparr>listenerRef = 4,
      callback = (\<lambda>(postId, progress, status).
                    if status = PostFailed then Thrown ''alert failed'' else Returned ())\<rparr>"

definition exampleAnalysis :: AnalyzeResponse where
  "exampleAnalysis =
     \<lparr>analyze_success = True,
      analyze_data = Some \<lparr>ad_labels = [''travel''], ad_summary = ''A trip'',
                            ad_contentType = Some ''travel'',
                            ad_suggestedGroupName = Some ''Trips'',
                            ad_modelVersion = ''v1''\<rparr>\<rparr>"

definition textOnlyContent :: CrawledContent where
  "textOnlyContent =
     \<lparr>cc_title = ''A post'', cc_text = ''hello'', cc_authorName = None, cc_authorId = None,
      cc_originalDate = None, cc_viewCount = None, cc_likeCount = None, cc_media = []\<rparr>"

definition textOnlyEnv :: env where
  "textOnlyEnv =
     \<lparr>xhsApi_crawl = (\<lambda>url. Inr \<lparr>crawl_success = True, crawl_data = Some textOnlyContent\<rparr>),
      xhsApi_analyze = (\<lambda>request. Inr exampleAnalysis),
      headContentLength = (\<lambda>url. NoSize),
      downloadAsync = (\<lambda>url path. Inr None),
      documentDirectory = ''file:///data/'',
      insertAIResultError = (\<lambda>postId. None)\<rparr>"

definition timeoutEnv :: env where
  "timeoutEnv = textOnlyEnv\<lparr>xhsApi_crawl := (\<lambda>url. Inl ''timeout'')\<rparr>"

definition galleryContent :: CrawledContent where
  "galleryContent =
     textOnlyContent\<lparr>cc_media :=
       [\<lparr>ref_type = Image, ref_url = ''a'', ref_fileSize = None\<rparr>,
        \<lparr>ref_type = Video, ref_url = ''b'', ref_fileSize = None\<rparr>,
        \<lparr>ref_type = Image, ref_url = ''c'', ref_fileSize = None\<rparr>]\<rparr>"

definition galleryEnv :: env where
  "galleryEnv =
     \<lparr>xhsApi_crawl = (\<lambda>url. Inr \<lparr>crawl_success = True, crawl_data = Some galleryContent\<rparr>),
      xhsApi_analyze = (\<lambda>request. Inl ''offline''),
      headContentLength = (\<lambda>url. if url = ''b'' then Size 157286400 else NoSize),
      downloadAsync = (\<lambda>url path. if url = ''a'' then Inr (Some (path, Some 2048))
                                   else Inl ''network error''),
      documentDirectory = ''file:///data/'',
      insertAIResultError = (\<lambda>postId. None)\<rparr>"



text \<open>
  An environment like \<open>textOnlyEnv\<close> in which the database rejects the insert of the
  analysis result, and the store in which the content of post \<open>1\<close> is saved and not yet
  analysed.
\<close>

definition failedInsertEnv :: env where
  "failedInsertEnv = textOnlyEnv\<lparr>insertAIResultError := (\<lambda>postId. Some ''disk I/O error'')\<rparr>"

definition contentOnlyWorld :: world where
  "contentOnlyWorld = saveContent 1 textOnlyContent exampleWorld"

section \<open>Notions used in the proofs\<close>

text \<open>
  One turn of the loop when no listener throws: \<open>settleRecord\<close> is the store after the
  \<^verbatim>\<open>try\<close> block, \<open>progressOf\<close> the fraction published after the \<open>k\<close>-th record.
\<close>

definition settleRecord :: "env \<Rightarrow> ident \<Rightarrow> Media \<Rightarrow> world \<Rightarrow> world" where
  "settleRecord e postId m w =
     (if oversizeVideo e m then updateMediaStatus (media_id m) MediaSkipped None None w
      else (let w1 = updateMediaStatus (media_id m) MediaDownloading None None w;
                (result, w2) = downloadFile e (media_remoteUrl m) (mediaLocalPath e postId m) w1
            in if transferSucceeds e postId m
               then updateMediaStatus (media_id m) MediaCompleted
                      (dr_localPath result) (dr_fileSize result) w2
               else updateMediaStatus (media_id m) MediaFailed None None w2))"

definition progressOf :: "(rat \<Rightarrow> rat) \<Rightarrow> nat \<Rightarrow> nat \<Rightarrow> rat" where
  "progressOf rnd len k = rnd (rnd (2 / 5) + rnd (rnd (of_nat k / of_nat len) * rnd (9 / 20)))"

text \<open>The fractions published by the media stage for \<open>n\<close> media references.\<close>

definition mediaStageProgress :: "(rat \<Rightarrow> rat) \<Rightarrow> nat \<Rightarrow> rat list" where
  "mediaStageProgress rnd n =
     (if n = 0 then [rnd (rnd (2 / 5) + rnd (1 * rnd (9 / 20)))]
      else map (progressOf rnd n) [1..<Suc n])"

text \<open>The records that \<^verbatim>\<open>createMediaBatch\<close> returns when the counter stands at \<open>n\<close>.\<close>

fun newRecords :: "ident \<Rightarrow> CreateMediaInput list \<Rightarrow> Media list" where
  "newRecords n [] = []"
| "newRecords n (input # inputs) =
     \<lparr>media_id = n, media_postId = cmi_postId input, media_type = cmi_type input,
      media_remoteUrl = cmi_remoteUrl input, media_localPath = None,
      media_fileSize = cmi_fileSize input, media_downloadStatus = MediaPending,
      media_sortOrder = cmi_sortOrder input\<rparr> # newRecords (Suc n) inputs"

definition runRecords :: "ident \<Rightarrow> CrawledContent \<Rightarrow> world \<Rightarrow> Media list" where
  "runRecords postId c w =
     newRecords (nextId (saveContent postId c w)) (toCreateMediaInputs postId (cc_media c))"

definition finalStatusOf :: "env \<Rightarrow> ident \<Rightarrow> Media list \<Rightarrow> PostDownloadStatus" where
  "finalStatusOf e postId rs =
     (if \<forall>m \<in> set rs. mediaOutcome e postId m \<noteq> MediaFailed then PostCompleted
      else PostPartial)"

text \<open>The media references, with their index, that pass the size gate of the loop.\<close>

definition transferredItems :: "env \<Rightarrow> MediaRef list \<Rightarrow> (nat \<times> MediaRef) list" where
  "transferredItems e mediaItems =
     filter (\<lambda>(index, item). \<not> (ref_type item = Video \<and> \<not> isVideoWithinLimit e (ref_url item)))
       (enumerate 0 mediaItems)"

text \<open>
  What consecutive runs on one post may do to the content table, and to the analysis
  results, the group counters and the log of increments.
\<close>

definition contentStep :: "ident \<Rightarrow> world \<Rightarrow> world \<Rightarrow> bool" where
  "contentStep postId w w' \<longleftrightarrow>
     (if getContentByPostId postId w = None
      then tbl_content w' = tbl_content w
           \<or> (\<exists>x. tbl_content w' = tbl_content w @ [x] \<and> content_postId x = postId)
      else tbl_content w' = tbl_content w)"

definition countsRiseByAtMostOne :: "Group list \<Rightarrow> Group list \<Rightarrow> bool" where
  "countsRiseByAtMostOne gs gs' \<longleftrightarrow>
     length gs \<le> length gs' \<and>
     (\<forall>i < length gs'.
        group_postCount (gs' ! i) \<le> (if i < length gs then group_postCount (gs ! i) else 0) + 1)"

definition analysedStep :: "ident \<Rightarrow> world \<Rightarrow> world \<Rightarrow> bool" where
  "analysedStep postId w w' \<longleftrightarrow>
     (getAIResultByPostId postId w \<noteq> None \<longrightarrow>
        tbl_ai_results w' = tbl_ai_results w \<and> groupIncrements w' = groupIncrements w
        \<and> analyzeCalls w' = analyzeCalls w \<and> tbl_groups w' = tbl_groups w)"

definition enrichStep :: "ident \<Rightarrow> world \<Rightarrow> world \<Rightarrow> bool" where
  "enrichStep postId w w' \<longleftrightarrow>
     (if getAIResultByPostId postId w = None
      then (tbl_ai_results w' = tbl_ai_results w \<and> groupIncrements w' = groupIncrements w
              \<and> tbl_groups w' = tbl_groups w)
           \<or> (getAIResultByPostId postId w' \<noteq> None
               \<and> length (groupIncrements w') \<le> length (groupIncrements w) + 1
               \<and> countsRiseByAtMostOne (tbl_groups w) (tbl_groups w'))
      else tbl_ai_results w' = tbl_ai_results w \<and> groupIncrements w' = groupIncrements w
           \<and> analyzeCalls w' = analyzeCalls w \<and> tbl_groups w' = tbl_groups w)"

text \<open>The store after a first run on \<open>exampleWorld\<close> in \<open>textOnlyEnv\<close>.\<close>

definition savedWorld :: world where
  "savedWorld =
     \<lparr>tbl_posts = [examplePost\<lparr>post_downloadStatus := PostCompleted\<rparr>],
      tbl_content =
        [\<lparr>content_id = 3, content_postId = 1, content_text = ''hello'',
          content_authorName = None, content_authorId = None, content_originalDate = None,
          content_viewCount = None, content_likeCount = None\<rparr>],
      tbl_media = [],
      tbl_groups =
        [\<lparr>group_id = 4, group_name = ''Trips'', group_description = None,
          group_postCount = 1\<rparr>],
      tbl_ai_results =
        [\<lparr>ai_id = 5, ai_postId = 1, ai_labels = [''travel''], ai_summary = ''A trip'',
          ai_groupId = Some 4, ai_contentType = Some ''travel'', ai_modelVersion = ''v1''\<rparr>],
      tbl_download_tasks = tbl_download_tasks exampleWorld,
      nextId = 6,
      published =
        [(1, 0, PostDownloading),
         (1, 5404319552844595 / 18014398509481984, PostDownloading),
         (1, 3602879701896397 / 9007199254740992, PostDownloading),
         (1, 1914029841632461 / 2251799813685248, PostDownloading),
         (1, 7656119366529843 / 9007199254740992, PostDownloading),
         (1, 1, PostCompleted)],
      invoked =
        [(2, (1, 0, PostDownloading)),
         (2, (1, 5404319552844595 / 18014398509481984, PostDownloading)),
         (2, (1, 3602879701896397 / 9007199254740992, PostDownloading)),
         (2, (1, 1914029841632461 / 2251799813685248, PostDownloading)),
         (2, (1, 7656119366529843 / 9007199254740992, PostDownloading)),
         (2, (1, 1, PostCompleted))],
      transfers = [],
      analyzeCalls = [\<lparr>req_title = None, req_text = ''hello'', req_mediaCount = 0\<rparr>],
      groupIncrements = [4]\<rparr>"

text \<open>
  The store after a run on \<open>exampleWorld\<close> in \<open>failedInsertEnv\<close>, and after a further run
  in \<open>textOnlyEnv\<close>.
\<close>

definition halfAnalysedWorld :: world where
  "halfAnalysedWorld = savedWorld\<lparr>tbl_ai_results := [], nextId := 5\<rparr>"

definition recountedWorld :: world where
  "recountedWorld =
     savedWorld\<lparr>tbl_groups :=
                  [\<lparr>group_id = 4, group_name = ''Trips'', group_description = None,
                    group_postCount = 2\<rparr>],
                published := published savedWorld @ published savedWorld,
                invoked := invoked savedWorld @ invoked savedWorld,
                analyzeCalls := analyzeCalls savedWorld @ analyzeCalls savedWorld,
                groupIncrements := [4, 4]\<rparr>"

section \<open>The download queue\<close>

lemma compareItems_le_iff: "compareItems x y \<le> 0 \<longleftrightarrow> goesBefore x y"
  by (auto simp: compareItems_def goesBefore_def)

lemma goesBefore_total: "\<not> goesBefore x y \<Longrightarrow> goesBefore y x"
  by (auto simp: goesBefore_def)

lemma goesBefore_trans: "goesBefore x y \<Longrightarrow> goesBefore y z \<Longrightarrow> goesBefore x z"
  by (auto simp: goesBefore_def)

lemma set_insertItem: "set (insertItem x xs) = insert x (set xs)"
  by (induction xs) auto

lemma sorted_insertItem:
  "sorted_wrt goesBefore xs \<Longrightarrow> sorted_wrt goesBefore (insertItem x xs)"
proof (induction xs)
  case Nil
  then show ?case by simp
next
  case (Cons y ys)
  show ?case
  proof (cases "goesBefore x y")
    case True
    then have "\<forall>z \<in> set ys. goesBefore x z"
      using Cons.prems by (auto intro: goesBefore_trans)
    with True Cons.prems show ?thesis
      by (simp add: compareItems_le_iff)
  next
    case False
    then have "goesBefore y x" by (rule goesBefore_total)
    with False Cons show ?thesis
      by (auto simp: compareItems_le_iff set_insertItem)
  qed
qed

lemma sorted_sortQueue: "sorted_wrt goesBefore (sortQueue xs)"
  unfolding sortQueue_def by (induction xs) (simp_all add: sorted_insertItem)

lemma insertItem_front:
  "sorted_wrt goesBefore (y # ys) \<Longrightarrow> insertItem y ys = y # ys"
  by (cases ys) (simp_all add: compareItems_le_iff)

lemma foldr_insertItem_position:
  "sorted_wrt goesBefore q \<Longrightarrow>
   foldr insertItem q [x] =
     takeWhile (\<lambda>y. goesBefore y x) q @ x # dropWhile (\<lambda>y. goesBefore y x) q"
proof (induction q)
  case Nil
  then show ?case by simp
next
  case (Cons y ys)
  then have ih: "foldr insertItem ys [x] =
      takeWhile (\<lambda>y. goesBefore y x) ys @ x # dropWhile (\<lambda>y. goesBefore y x) ys"
    by simp
  have before: "\<forall>z \<in> set ys. goesBefore y z"
    using Cons.prems by simp
  show ?case
  proof (cases "goesBefore y x")
    case True
    have "insertItem y (takeWhile (\<lambda>y. goesBefore y x) ys @ x # dropWhile (\<lambda>y. goesBefore y x) ys)
        = y # takeWhile (\<lambda>y. goesBefore y x) ys @ x # dropWhile (\<lambda>y. goesBefore y x) ys"
      using True before by (cases ys) (simp_all add: compareItems_le_iff)
    with True ih show ?thesis by simp
  next
    case False
    have none: "\<forall>z \<in> set ys. \<not> goesBefore z x"
      using False before by (blast intro: goesBefore_trans)
    then have "takeWhile (\<lambda>y. goesBefore y x) ys = []"
      and "dropWhile (\<lambda>y. goesBefore y x) ys = ys"
      by (cases ys; simp)+
    with ih have "foldr insertItem ys [x] = x # ys" by simp
    moreover have "insertItem y ys = y # ys"
      using Cons.prems by (rule insertItem_front)
    ultimately show ?thesis
      using False by (simp add: compareItems_le_iff)
  qed
qed

lemma sortQueue_snoc:
  "sorted_wrt goesBefore q \<Longrightarrow>
   sortQueue (q @ [x]) =
     takeWhile (\<lambda>y. goesBefore y x) q @ x # dropWhile (\<lambda>y. goesBefore y x) q"
  by (simp add: sortQueue_def foldr_insertItem_position)

lemma loopTurn_invariant:
  "sorted_wrt goesBefore (downloadQueue s) \<Longrightarrow> isProcessing s \<Longrightarrow> queueInvariant (loopTurn s)"
  by (auto simp: loopTurn_def queueInvariant_def split: list.splits)

lemma queueDownload_invariant:
  "queueInvariant s \<Longrightarrow> queueInvariant (queueDownload postId prio now s)"
proof -
  assume inv: "queueInvariant s"
  let ?s' = "s\<lparr>downloadQueue :=
                  sortQueue (downloadQueue s @
                    [\<lparr>item_postId = postId, priority = prio, addedAt = now\<rparr>])\<rparr>"
  have sorted: "sorted_wrt goesBefore (downloadQueue ?s')"
    by (simp add: sorted_sortQueue)
  have "queueInvariant (processQueue ?s')"
  proof (cases "isProcessing s")
    case True
    with sorted show ?thesis by (simp add: processQueue_def queueInvariant_def)
  next
    case False
    have "queueInvariant (loopTurn (?s'\<lparr>isProcessing := True\<rparr>))"
      by (rule loopTurn_invariant) (simp_all add: sorted_sortQueue)
    with False show ?thesis
      by (simp add: processQueue_def queueInvariant_def)
  qed
  with inv show ?thesis by (simp add: queueDownload_def)
qed

lemma downloadSettled_invariant:
  "queueInvariant s \<Longrightarrow> queueInvariant (downloadSettled s)"
  using loopTurn_invariant [of s] by (auto simp: downloadSettled_def queueInvariant_def)

lemma queueStep_invariant: "queueInvariant s \<Longrightarrow> queueInvariant (queueStep s ev)"
  by (cases ev) (simp_all add: queueDownload_invariant downloadSettled_invariant)

lemma foldl_queueStep_invariant:
  "queueInvariant s \<Longrightarrow> queueInvariant (foldl queueStep s evs)"
  by (induction evs arbitrary: s) (simp_all add: queueStep_invariant)

lemma runQueue_invariant: "queueInvariant (runQueue evs)"
  unfolding runQueue_def
  by (rule foldl_queueStep_invariant) (simp add: queueInvariant_def idleScheduler_def)

lemma drain_in_queue_order:
  "isProcessing s \<Longrightarrow>
   dispatched (foldl queueStep s (replicate (length (downloadQueue s)) Settled)) =
     dispatched s @ map item_postId (downloadQueue s)"
proof (induction "downloadQueue s" arbitrary: s)
  case Nil
  then show ?case by simp
next
  case (Cons item rest)
  let ?s' = "s\<lparr>downloadQueue := rest, dispatched := dispatched s @ [item_postId item]\<rparr>"
  from Cons.hyps(2) [symmetric] Cons.prems
  have step: "downloadSettled s = ?s'"
    by (simp add: downloadSettled_def loopTurn_def)
  have "dispatched (foldl queueStep ?s' (replicate (length (downloadQueue ?s')) Settled)) =
      dispatched ?s' @ map item_postId (downloadQueue ?s')"
    using Cons.prems by (intro Cons.hyps(1)) simp_all
  with step Cons.hyps(2) [symmetric] show ?case
    by simp
qed

text \<open>
  Claim C5. \<^verbatim>\<open>queueDownload\<close> with a post id that is in the queue leaves every state
  as it is. In every state that the queue reaches from the idle state, whatever the
  enqueue calls and settled downloads were: the queue is ordered by descending priority
  and, within one priority, ascending \<open>addedAt\<close>; \<^verbatim>\<open>queueDownload\<close> with a post id that
  is not in the queue stores the id with the priority and the time of the call, behind
  every queued item that goes before it or ties with it, so that equal priority is served
  first in, first out, or hands the id to \<^verbatim>\<open>downloadPost\<close> at once when no download is in
  progress; when a download settles, the loop hands the head of the queue to
  \<^verbatim>\<open>downloadPost\<close>, and the head goes before every item that stays behind, or ends when
  the queue is empty; and with no further enqueue the queued items are handed over in the
  order of the queue. The queue starts empty and idle.
\<close>

theorem queue_idempotent_and_ordered:
  fixes evs :: "queueEvent list"
  defines "s \<equiv> runQueue evs"
  shows "(\<forall>s0 postId prio now.
            postId \<in> item_postId ` set (downloadQueue s0) \<longrightarrow> queueDownload postId prio now s0 = s0)
       \<and> sorted_wrt goesBefore (downloadQueue s)
       \<and> (\<forall>x. sortQueue (downloadQueue s @ [x]) =
                 takeWhile (\<lambda>y. goesBefore y x) (downloadQueue s)
                   @ x # dropWhile (\<lambda>y. goesBefore y x) (downloadQueue s))
       \<and> (\<forall>postId prio now.
            postId \<notin> item_postId ` set (downloadQueue s) \<longrightarrow>
            queueDownload postId prio now s =
              (if isProcessing s
               then s\<lparr>downloadQueue :=
                        takeWhile
                          (\<lambda>y. goesBefore y \<lparr>item_postId = postId, priority = prio, addedAt = now\<rparr>)
                          (downloadQueue s)
                        @ \<lparr>item_postId = postId, priority = prio, addedAt = now\<rparr>
                        # dropWhile
                            (\<lambda>y. goesBefore y \<lparr>item_postId = postId, priority = prio, addedAt = now\<rparr>)
                            (downloadQueue s)\<rparr>
               else s\<lparr>downloadQueue := [], isProcessing := True,
                      dispatched := dispatched s @ [postId]\<rparr>))
       \<and> (\<forall>item rest. downloadQueue s = item # rest \<longrightarrow>
             downloadSettled s =
               s\<lparr>downloadQueue := rest, dispatched := dispatched s @ [item_postId item]\<rparr>
             \<and> (\<forall>y \<in> set rest. goesBefore item y))
       \<and> (downloadQueue s = [] \<longrightarrow> downloadSettled s = s\<lparr>isProcessing := False\<rparr>)
       \<and> dispatched (foldl queueStep s (replicate (length (downloadQueue s)) Settled)) =
            dispatched s @ map item_postId (downloadQueue s)
       \<and> runQueue [] = \<lparr>downloadQueue = [], isProcessing = False, dispatched = []\<rparr>"
proof -
  have inv: "queueInvariant s"
    unfolding s_def by (rule runQueue_invariant)
  then have sorted: "sorted_wrt goesBefore (downloadQueue s)"
    by (simp add: queueInvariant_def)
  have idem: "\<forall>s0 postId prio now.
      postId \<in> item_postId ` set (downloadQueue s0) \<longrightarrow> queueDownload postId prio now s0 = s0"
    by (auto simp: queueDownload_def)
  have pos: "\<forall>x. sortQueue (downloadQueue s @ [x]) =
                 takeWhile (\<lambda>y. goesBefore y x) (downloadQueue s)
                   @ x # dropWhile (\<lambda>y. goesBefore y x) (downloadQueue s)"
    using sorted by (simp add: sortQueue_snoc)
  have fresh: "queueDownload postId prio now s =
              (if isProcessing s
               then s\<lparr>downloadQueue :=
                        takeWhile
                          (\<lambda>y. goesBefore y \<lparr>item_postId = postId, priority = prio, addedAt = now\<rparr>)
                          (downloadQueue s)
                        @ \<lparr>item_postId = postId, priority = prio, addedAt = now\<rparr>
                        # dropWhile
                            (\<lambda>y. goesBefore y \<lparr>item_postId = postId, priority = prio, addedAt = now\<rparr>)
                            (downloadQueue s)\<rparr>
               else s\<lparr>downloadQueue := [], isProcessing := True,
                      dispatched := dispatched s @ [postId]\<rparr>)"
    if new: "postId \<notin> item_postId ` set (downloadQueue s)" for postId prio now
  proof (cases "isProcessing s")
    case True
    with new sortQueue_snoc [OF sorted] show ?thesis
      by (auto simp: queueDownload_def processQueue_def)
  next
    case False
    with inv have "downloadQueue s = []"
      by (auto simp: queueInvariant_def)
    with False show ?thesis
      by (simp add: queueDownload_def processQueue_def loopTurn_def sortQueue_def)
  qed
  have deq: "\<forall>item rest. downloadQueue s = item # rest \<longrightarrow>
             downloadSettled s =
               s\<lparr>downloadQueue := rest, dispatched := dispatched s @ [item_postId item]\<rparr>
             \<and> (\<forall>y \<in> set rest. goesBefore item y)"
    using inv by (auto simp: queueInvariant_def downloadSettled_def loopTurn_def)
  have drain: "dispatched (foldl queueStep s (replicate (length (downloadQueue s)) Settled)) =
            dispatched s @ map item_postId (downloadQueue s)"
  proof (cases "downloadQueue s = []")
    case True
    then show ?thesis by simp
  next
    case False
    with inv have "isProcessing s" by (simp add: queueInvariant_def)
    then show ?thesis by (rule drain_in_queue_order)
  qed
  have idle: "downloadQueue s = [] \<longrightarrow> downloadSettled s = s\<lparr>isProcessing := False\<rparr>"
    by (simp add: downloadSettled_def loopTurn_def)
  have start: "runQueue [] = \<lparr>downloadQueue = [], isProcessing = False, dispatched = []\<rparr>"
    by (simp add: runQueue_def idleScheduler_def)
  from idem sorted pos fresh deq idle drain start show ?thesis by blast
qed

theorem queue_idempotent_and_ordered_witness:
  "3 \<in> item_postId ` set (downloadQueue (runQueue exampleEvents))
   \<and> queueDownload 3 7 200 (runQueue exampleEvents) = runQueue exampleEvents
   \<and> downloadQueue (runQueue exampleEvents) =
       [\<lparr>item_postId = 3, priority = 1, addedAt = 102\<rparr>,
        \<lparr>item_postId = 2, priority = 0, addedAt = 101\<rparr>,
        \<lparr>item_postId = 4, priority = 0, addedAt = 101\<rparr>]
   \<and> 5 \<notin> item_postId ` set (downloadQueue (runQueue exampleEvents))
   \<and> isProcessing (runQueue exampleEvents)
   \<and> downloadQueue (queueDownload 5 1 300 (runQueue exampleEvents)) =
       [\<lparr>item_postId = 3, priority = 1, addedAt = 102\<rparr>,
        \<lparr>item_postId = 5, priority = 1, addedAt = 300\<rparr>,
        \<lparr>item_postId = 2, priority = 0, addedAt = 101\<rparr>,
        \<lparr>item_postId = 4, priority = 0, addedAt = 101\<rparr>]
   \<and> dispatched (downloadSettled (runQueue exampleEvents)) = [1, 3]
   \<and> goesBefore \<lparr>item_postId = 3, priority = 1, addedAt = 102\<rparr>
        \<lparr>item_postId = 2, priority = 0, addedAt = 101\<rparr>
   \<and> dispatched (foldl queueStep (runQueue exampleEvents) [Settled, Settled, Settled]) =
       [1, 3, 2, 4]
   \<and> downloadQueue (runQueue []) = []
   \<and> \<not> isProcessing (runQueue [])
   \<and> queueDownload 1 0 100 (runQueue []) =
       \<lparr>downloadQueue = [], isProcessing = True, dispatched = [1]\<rparr>
   \<and> downloadSettled (runQueue [Enqueue 1 0 100]) =
       \<lparr>downloadQueue = [], isProcessing = False, dispatched = [1]\<rparr>"
proof -
  have q: "downloadQueue (runQueue exampleEvents) =
       [\<lparr>item_postId = 3, priority = 1, addedAt = 102\<rparr>,
        \<lparr>item_postId = 2, priority = 0, addedAt = 101\<rparr>,
        \<lparr>item_postId = 4, priority = 0, addedAt = 101\<rparr>]"
    by code_simp
  have d: "dispatched (runQueue exampleEvents) = [1]"
    by code_simp
  have p: "isProcessing (runQueue exampleEvents)"
    by code_simp
  note t = queue_idempotent_and_ordered [of exampleEvents]
  have front: "3 \<in> item_postId ` set (downloadQueue (runQueue exampleEvents))
   \<and> queueDownload 3 7 200 (runQueue exampleEvents) = runQueue exampleEvents
   \<and> dispatched (downloadSettled (runQueue exampleEvents)) = [1, 3]
   \<and> goesBefore \<lparr>item_postId = 3, priority = 1, addedAt = 102\<rparr>
        \<lparr>item_postId = 2, priority = 0, addedAt = 101\<rparr>"
    using t q d by simp
  have new: "5 \<notin> item_postId ` set (downloadQueue (runQueue exampleEvents))"
    using q by simp
  have "queueDownload 5 1 300 (runQueue exampleEvents) =
      (runQueue exampleEvents)\<lparr>downloadQueue :=
         takeWhile (\<lambda>y. goesBefore y \<lparr>item_postId = 5, priority = 1, addedAt = 300\<rparr>)
           (downloadQueue (runQueue exampleEvents))
         @ \<lparr>item_postId = 5, priority = 1, addedAt = 300\<rparr>
         # dropWhile (\<lambda>y. goesBefore y \<lparr>item_postId = 5, priority = 1, addedAt = 300\<rparr>)
             (downloadQueue (runQueue exampleEvents))\<rparr>"
    using t [THEN conjunct2, THEN conjunct2, THEN conjunct2, THEN conjunct1] new p by simp
  then have placed: "downloadQueue (queueDownload 5 1 300 (runQueue exampleEvents)) =
       [\<lparr>item_postId = 3, priority = 1, addedAt = 102\<rparr>,
        \<lparr>item_postId = 5, priority = 1, addedAt = 300\<rparr>,
        \<lparr>item_postId = 2, priority = 0, addedAt = 101\<rparr>,
        \<lparr>item_postId = 4, priority = 0, addedAt = 101\<rparr>]"
    by (simp add: q goesBefore_def)
  have drain: "dispatched (foldl queueStep (runQueue exampleEvents) [Settled, Settled, Settled]) =
       [1, 3, 2, 4]"
    using t [THEN conjunct2, THEN conjunct2, THEN conjunct2, THEN conjunct2, THEN conjunct2,
             THEN conjunct2, THEN conjunct1] q d
    by simp
  note u = queue_idempotent_and_ordered [of "[]"]
  have start: "runQueue [] = \<lparr>downloadQueue = [], isProcessing = False, dispatched = []\<rparr>"
    using u by blast
  have idle: "downloadQueue (runQueue []) = [] \<and> \<not> isProcessing (runQueue [])"
    by (simp add: start)
  have first: "queueDownload 1 0 100 (runQueue []) =
       \<lparr>downloadQueue = [], isProcessing = True, dispatched = [1]\<rparr>"
    using u [THEN conjunct2, THEN conjunct2, THEN conjunct2, THEN conjunct1] by (simp add: start)
  have one: "runQueue [Enqueue 1 0 100] =
       \<lparr>downloadQueue = [], isProcessing = True, dispatched = [1]\<rparr>"
    using first by (simp add: runQueue_def start [unfolded runQueue_def, simplified])
  have last: "downloadSettled (runQueue [Enqueue 1 0 100]) =
       \<lparr>downloadQueue = [], isProcessing = False, dispatched = [1]\<rparr>"
    using queue_idempotent_and_ordered [of "[Enqueue 1 0 100]", THEN conjunct2, THEN conjunct2, THEN conjunct2,
                THEN conjunct2, THEN conjunct2, THEN conjunct1]
    unfolding one by simp
  from front q new p placed drain idle first last show ?thesis by blast
qed

section \<open>The progress broadcaster\<close>

lemma forEachListener_frame:
  "\<exists>calls. snd (forEachListener ls n w) = w\<lparr>invoked := calls\<rparr>"
proof (induction ls arbitrary: w)
  case Nil
  have "w = w\<lparr>invoked := invoked w\<rparr>" by simp
  then show ?case by (metis forEachListener.simps(1) snd_conv)
next
  case (Cons l ls)
  from Cons [of "w\<lparr>invoked := invoked w @ [(listenerRef l, n)]\<rparr>"]
  show ?case by (auto simp: Let_def split: completion.splits)
qed

lemma notifyProgress_frame:
  "\<exists>calls. snd (notifyProgress ls postId x st w) =
     w\<lparr>published := published w @ [(postId, x, st)], invoked := calls\<rparr>"
  using forEachListener_frame [of ls "(postId, x, st)" "w\<lparr>published := published w @ [(postId, x, st)]\<rparr>"]
  by (auto simp: notifyProgress_def)

lemma forEachListener_neverThrows:
  "neverThrows ls \<Longrightarrow>
   forEachListener ls n w =
     (Returned (), w\<lparr>invoked := invoked w @ map (\<lambda>l. (listenerRef l, n)) ls\<rparr>)"
  by (induction ls arbitrary: w) (simp_all add: neverThrows_def Let_def del: split_paired_All)

lemma notifyProgress_neverThrows:
  "neverThrows ls \<Longrightarrow>
   notifyProgress ls postId x st w =
     (Returned (),
      w\<lparr>published := published w @ [(postId, x, st)],
        invoked := invoked w @ map (\<lambda>l. (listenerRef l, (postId, x, st))) ls\<rparr>)"
  by (simp add: notifyProgress_def forEachListener_neverThrows)

lemma forEachListener_stops_at_throw:
  "neverThrows pre \<Longrightarrow> callback l n = Thrown err \<Longrightarrow>
   forEachListener (pre @ l # rest) n w =
     (Thrown err, w\<lparr>invoked := invoked w @ map (\<lambda>l. (listenerRef l, n)) (pre @ [l])\<rparr>)"
  by (induction pre arbitrary: w) (simp_all add: neverThrows_def Let_def del: split_paired_All)

text \<open>
  Claim C8, at an input where it fails. With two listeners of which the first throws,
  \<^verbatim>\<open>notifyProgress\<close> invokes the first only and ends with the exception of that
  listener: the second listener is not notified and the exception reaches the publisher.
\<close>

theorem notifyProgress_listener_exception:
  "notifyProgress [throwingListener, quietListener] 1 (1 / 2) PostDownloading exampleWorld =
     (Thrown ''listener failed'',
      exampleWorld\<lparr>published := [(1, 1 / 2, PostDownloading)],
                   invoked := [(1, (1, 1 / 2, PostDownloading))]\<rparr>)"
  by (simp add: notifyProgress_def throwingListener_def quietListener_def exampleWorld_def)

section \<open>What a run can change\<close>

lemma andThen_rel:
  assumes "R w (snd r)" and "\<And>a w'. R w' (snd (k a w'))"
    and "\<And>a b c. R a b \<Longrightarrow> R b c \<Longrightarrow> R a c"
  shows "R w (snd (andThen r k))"
proof (cases r)
  case (Pair c w1)
  show ?thesis
  proof (cases c)
    case (Returned a)
    with Pair assms(1) assms(2) [of w1 a] assms(3) show ?thesis
      by (auto simp: andThen_def)
  next
    case (Thrown err)
    with Pair assms(1) show ?thesis by (simp add: andThen_def)
  qed
qed

lemma notifyProgress_rel:
  assumes "\<And>w p i. R w (w\<lparr>published := p, invoked := i\<rparr>)"
  shows "R w (snd (notifyProgress ls postId x st w))"
proof -
  obtain calls where "snd (notifyProgress ls postId x st w) =
     w\<lparr>published := published w @ [(postId, x, st)], invoked := calls\<rparr>"
    using notifyProgress_frame by blast
  with assms show ?thesis by simp
qed

lemma downloadFile_rel:
  assumes "\<And>w t. R w (w\<lparr>transfers := t\<rparr>)"
  shows "R w (snd (downloadFile e url path w))"
  using assms by (simp add: downloadFile_def Let_def split: sum.splits option.splits prod.splits)

lemma downloadMediaLoop_rel:
  assumes trans: "\<And>a b c. R a b \<Longrightarrow> R b c \<Longrightarrow> R a c"
    and refl: "\<And>a. R a a"
    and logs: "\<And>w p i. R w (w\<lparr>published := p, invoked := i\<rparr>)"
    and upd: "\<And>i st lp fs w. R w (updateMediaStatus i st lp fs w)"
    and xfer: "\<And>w t. R w (w\<lparr>transfers := t\<rparr>)"
  shows "R w (snd (downloadMediaLoop rnd e ls postId len ms c hf w))"
proof (induction ms arbitrary: c hf w)
  case Nil
  show ?case by (simp add: refl)
next
  case (Cons m ms)
  have prog: "\<And>x w. R w (snd (onProgress rnd ls postId x w))"
    unfolding onProgress_def by (rule notifyProgress_rel) (rule logs)
  show ?case
  proof (cases "media_type m = Video \<and> \<not> isVideoWithinLimit e (media_remoteUrl m)")
    case True
    then have skip: "(media_type m = Video \<and> \<not> isVideoWithinLimit e (media_remoteUrl m)) = True"
      by simp
    let ?w1 = "updateMediaStatus (media_id m) MediaSkipped None None w"
    let ?r = "onProgress rnd ls postId (rnd (of_nat (c + 1) / of_nat len)) ?w1"
    have r1: "R w (snd ?r)"
      using trans [OF upd prog] .
    show ?thesis
    proof (cases ?r)
      case (Pair res w2)
      with r1 have r2: "R w w2" by simp
      show ?thesis
      proof (cases res)
        case (Returned u)
        have "R w2 (snd (downloadMediaLoop rnd e ls postId len ms (c + 1) hf w2))"
          by (rule Cons)
        with r2 have "R w (snd (downloadMediaLoop rnd e ls postId len ms (c + 1) hf w2))"
          by (rule trans)
        with Pair Returned skip show ?thesis
          by (simp add: Let_def)
      next
        case (Thrown err)
        let ?w3 = "updateMediaStatus (media_id m) MediaFailed None None w2"
        have "R w ?w3" using r2 upd by (rule trans)
        moreover have "R ?w3 (snd (andThen
            (onProgress rnd ls postId (rnd (of_nat (c + 1 + 1) / of_nat len)) ?w3)
            (\<lambda>u. downloadMediaLoop rnd e ls postId len ms (c + 1 + 1) True)))"
          by (rule andThen_rel [OF prog Cons trans])
        ultimately have "R w (snd (andThen
            (onProgress rnd ls postId (rnd (of_nat (c + 1 + 1) / of_nat len)) ?w3)
            (\<lambda>u. downloadMediaLoop rnd e ls postId len ms (c + 1 + 1) True)))"
          by (rule trans)
        with Pair Thrown skip show ?thesis
          by (simp add: Let_def)
      qed
    qed
  next
    case False
    let ?path = "getMediaPath e postId (media_sortOrder m) (media_type m)"
    let ?w1 = "updateMediaStatus (media_id m) MediaDownloading None None w"
    obtain result w2 where df: "downloadFile e (media_remoteUrl m) ?path ?w1 = (result, w2)"
      by (cases "downloadFile e (media_remoteUrl m) ?path ?w1")
    have "R ?w1 w2"
      using downloadFile_rel [of R ?w1 e "media_remoteUrl m" ?path] xfer df by simp
    with upd have r2: "R w w2" by (rule trans)
    let ?ok = "dr_success result \<and> dr_localPath result \<noteq> None \<and> dr_localPath result \<noteq> Some []"
    let ?w3 = "if ?ok then updateMediaStatus (media_id m) MediaCompleted
                          (dr_localPath result) (dr_fileSize result) w2
               else updateMediaStatus (media_id m) MediaFailed None None w2"
    have "R w2 ?w3" by (simp add: upd)
    with r2 have r3: "R w ?w3" by (rule trans)
    have "R ?w3 (snd (andThen
            (onProgress rnd ls postId (rnd (of_nat (c + 1) / of_nat len)) ?w3)
            (\<lambda>u. downloadMediaLoop rnd e ls postId len ms (c + 1) (hf \<or> \<not> ?ok))))"
      by (rule andThen_rel [OF prog Cons trans])
    with r3 have "R w (snd (andThen
            (onProgress rnd ls postId (rnd (of_nat (c + 1) / of_nat len)) ?w3)
            (\<lambda>u. downloadMediaLoop rnd e ls postId len ms (c + 1) (hf \<or> \<not> ?ok))))"
      by (rule trans)
    moreover from False
    have "(media_type m = Video \<and> \<not> isVideoWithinLimit e (media_remoteUrl m)) = False"
      by simp
    ultimately show ?thesis using df by (auto simp: Let_def)
  qed
qed

lemma createMediaBatch_rel:
  assumes trans: "\<And>a b c. R a b \<Longrightarrow> R b c \<Longrightarrow> R a c"
    and refl: "\<And>a. R a a"
    and new: "\<And>input w. R w (snd (createMedia input w))"
  shows "R w (snd (createMediaBatch inputs w))"
proof (induction inputs arbitrary: w)
  case Nil
  show ?case by (simp add: refl)
next
  case (Cons input inputs)
  have "R w (snd (createMedia input w))" by (rule new)
  moreover have "R (snd (createMedia input w)) (snd (createMediaBatch inputs (snd (createMedia input w))))"
    by (rule Cons)
  ultimately have "R w (snd (createMediaBatch inputs (snd (createMedia input w))))"
    by (rule trans)
  then show ?case by (simp add: split_beta Let_def)
qed

lemma downloadMedia_rel:
  assumes trans: "\<And>a b c. R a b \<Longrightarrow> R b c \<Longrightarrow> R a c"
    and refl: "\<And>a. R a a"
    and logs: "\<And>w p i. R w (w\<lparr>published := p, invoked := i\<rparr>)"
    and new: "\<And>input w. R w (snd (createMedia input w))"
    and upd: "\<And>i st lp fs w. R w (updateMediaStatus i st lp fs w)"
    and xfer: "\<And>w t. R w (w\<lparr>transfers := t\<rparr>)"
  shows "R w (snd (downloadMedia rnd e ls postId mediaItems w))"
proof (cases "mediaItems = []")
  case True
  have "R w (snd (andThen (onProgress rnd ls postId 1 w) (\<lambda>u w'. (Returned True, w'))))"
  proof (rule andThen_rel [OF _ _ trans])
    show "R w (snd (onProgress rnd ls postId 1 w))"
      unfolding onProgress_def by (rule notifyProgress_rel) (rule logs)
  qed (simp_all add: refl)
  with True show ?thesis by (simp add: downloadMedia_def)
next
  case False
  let ?b = "createMediaBatch (toCreateMediaInputs postId mediaItems) w"
  have "R w (snd ?b)"
    by (rule createMediaBatch_rel [OF trans refl new])
  moreover have "R (snd ?b) (snd (downloadMediaLoop rnd e ls postId (length (fst ?b)) (fst ?b) 0 False (snd ?b)))"
    by (rule downloadMediaLoop_rel [OF trans refl logs upd xfer])
  ultimately have "R w (snd (downloadMediaLoop rnd e ls postId (length (fst ?b)) (fst ?b) 0 False (snd ?b)))"
    by (rule trans)
  with False show ?thesis by (simp add: downloadMedia_def split_beta)
qed

lemma downloadPostBody_rel:
  assumes trans: "\<And>a b c. R a b \<Longrightarrow> R b c \<Longrightarrow> R a c"
    and refl: "\<And>a. R a a"
    and post: "\<And>s w. R w (updatePostStatus postId s w)"
    and logs: "\<And>w p i. R w (w\<lparr>published := p, invoked := i\<rparr>)"
    and save: "\<And>c w. R w (saveContent postId c w)"
    and new: "\<And>input w. R w (snd (createMedia input w))"
    and upd: "\<And>i st lp fs w. R w (updateMediaStatus i st lp fs w)"
    and xfer: "\<And>w t. R w (w\<lparr>transfers := t\<rparr>)"
    and ai: "\<And>w. R w (snd (analyzePost e postId w))"
  shows "R w (snd (downloadPostBody rnd e ls postId p w))"
proof -
  have np: "\<And>x st w. R w (snd (notifyProgress ls postId x st w))"
    by (rule notifyProgress_rel) (rule logs)
  have ret: "\<And>b u w. R w (snd (Returned b, w))"
    by (simp add: refl)
  show ?thesis
  proof (cases "if cr_success (crawlPost e (post_url p)) then cr_content (crawlPost e (post_url p)) else None")
    case None
    have "R w (snd (notifyProgress ls postId 0 PostFailed (updatePostStatus postId PostFailed w)))"
      using post np by (rule trans)
    then have "R w (snd (andThen (notifyProgress ls postId 0 PostFailed (updatePostStatus postId PostFailed w))
               (\<lambda>u w'. (Returned False, w'))))"
      using ret trans by (rule andThen_rel)
    with None show ?thesis by (simp add: downloadPostBody_def Let_def)
  next
    case (Some content)
    have k4: "R w4 (snd (let (analysis, w5) = analyzePost e postId w4;
                    finalStatus = (if ms then PostCompleted else PostPartial)
                in andThen (notifyProgress ls postId 1 finalStatus
                              (updatePostStatus postId finalStatus w5))
                     (\<lambda>u w6. (Returned True, w6))))" for ms w4
    proof -
      let ?w5 = "snd (analyzePost e postId w4)"
      let ?st = "if ms then PostCompleted else PostPartial"
      have "R w4 (updatePostStatus postId ?st ?w5)"
        using ai post by (rule trans)
      then have "R w4 (snd (notifyProgress ls postId 1 ?st (updatePostStatus postId ?st ?w5)))"
        using np by (rule trans)
      then have "R w4 (snd (andThen (notifyProgress ls postId 1 ?st (updatePostStatus postId ?st ?w5))
                     (\<lambda>u w6. (Returned True, w6))))"
        using ret trans by (rule andThen_rel)
      then show ?thesis
        by (simp add: split_beta Let_def)
    qed
    have k3: "R w3 (snd (
             andThen (notifyProgress ls postId (rnd (17 / 20)) PostDownloading w3) (\<lambda>u w4.
               (let (analysis, w5) = analyzePost e postId w4;
                    finalStatus = (if ms then PostCompleted else PostPartial)
                in andThen (notifyProgress ls postId 1 finalStatus
                              (updatePostStatus postId finalStatus w5))
                     (\<lambda>u w6. (Returned True, w6))))))" for ms w3
      using np k4 trans by (rule andThen_rel)
    have dm: "R w2 (snd (downloadMedia rnd e ls postId (cc_media content) w2))" for w2
      by (rule downloadMedia_rel [OF trans refl logs new upd xfer])
    have k2: "R w2 (snd (
             andThen (downloadMedia rnd e ls postId (cc_media content) w2) (\<lambda>mediaSuccess w3.
             andThen (notifyProgress ls postId (rnd (17 / 20)) PostDownloading w3) (\<lambda>u w4.
               (let (analysis, w5) = analyzePost e postId w4;
                    finalStatus = (if mediaSuccess then PostCompleted else PostPartial)
                in andThen (notifyProgress ls postId 1 finalStatus
                              (updatePostStatus postId finalStatus w5))
                     (\<lambda>u w6. (Returned True, w6)))))))" for w2
      using dm k3 trans by (rule andThen_rel)
    have "R w1 (snd (notifyProgress ls postId (rnd (2 / 5)) PostDownloading
                        (saveContent postId content w1)))" for w1
      using save np by (rule trans)
    then have k1: "R w1 (snd (
             andThen (notifyProgress ls postId (rnd (2 / 5)) PostDownloading
                        (saveContent postId content w1)) (\<lambda>u w2.
             andThen (downloadMedia rnd e ls postId (cc_media content) w2) (\<lambda>mediaSuccess w3.
             andThen (notifyProgress ls postId (rnd (17 / 20)) PostDownloading w3) (\<lambda>u w4.
               (let (analysis, w5) = analyzePost e postId w4;
                    finalStatus = (if mediaSuccess then PostCompleted else PostPartial)
                in andThen (notifyProgress ls postId 1 finalStatus
                              (updatePostStatus postId finalStatus w5))
                     (\<lambda>u w6. (Returned True, w6))))))))" for w1
      using k2 trans by (rule andThen_rel)
    have "R w (snd (
             andThen (notifyProgress ls postId (rnd (3 / 10)) PostDownloading w) (\<lambda>u w1.
             andThen (notifyProgress ls postId (rnd (2 / 5)) PostDownloading
                        (saveContent postId content w1)) (\<lambda>u w2.
             andThen (downloadMedia rnd e ls postId (cc_media content) w2) (\<lambda>mediaSuccess w3.
             andThen (notifyProgress ls postId (rnd (17 / 20)) PostDownloading w3) (\<lambda>u w4.
               (let (analysis, w5) = analyzePost e postId w4;
                    finalStatus = (if mediaSuccess then PostCompleted else PostPartial)
                in andThen (notifyProgress ls postId 1 finalStatus
                              (updatePostStatus postId finalStatus w5))
                     (\<lambda>u w6. (Returned True, w6)))))))))"
      using np k1 trans by (rule andThen_rel)
    with Some show ?thesis by (simp add: downloadPostBody_def Let_def)
  qed
qed

lemma downloadPost_rel:
  assumes trans: "\<And>a b c. R a b \<Longrightarrow> R b c \<Longrightarrow> R a c"
    and refl: "\<And>a. R a a"
    and post: "\<And>s w. R w (updatePostStatus postId s w)"
    and logs: "\<And>w p i. R w (w\<lparr>published := p, invoked := i\<rparr>)"
    and save: "\<And>c w. R w (saveContent postId c w)"
    and new: "\<And>input w. R w (snd (createMedia input w))"
    and upd: "\<And>i st lp fs w. R w (updateMediaStatus i st lp fs w)"
    and xfer: "\<And>w t. R w (w\<lparr>transfers := t\<rparr>)"
    and ai: "\<And>w. R w (snd (analyzePost e postId w))"
  shows "R w (snd (downloadPost rnd e ls postId w))"
proof (cases "getPostById postId w")
  case None
  then show ?thesis by (simp add: downloadPost_def refl)
next
  case (Some p)
  have np: "\<And>x st w. R w (snd (notifyProgress ls postId x st w))"
    by (rule notifyProgress_rel) (rule logs)
  have ret: "\<And>b u w. R w (snd (Returned b, w))"
    by (simp add: refl)
  have body: "\<And>w1. R w1 (snd (downloadPostBody rnd e ls postId p w1))"
    by (rule downloadPostBody_rel [OF trans refl post logs save new upd xfer ai])
  have catch: "R w1 (snd (case downloadPostBody rnd e ls postId p w1 of
               (Returned b, w2) \<Rightarrow> (Returned b, w2)
             | (Thrown err, w2) \<Rightarrow>
                 andThen (notifyProgress ls postId 0 PostFailed
                            (updatePostStatus postId PostFailed w2))
                   (\<lambda>u w3. (Returned False, w3))))" for w1
  proof -
    obtain res w2 where b: "downloadPostBody rnd e ls postId p w1 = (res, w2)"
      by (cases "downloadPostBody rnd e ls postId p w1")
    with body [of w1] have r: "R w1 w2" by simp
    have "R w2 (snd (notifyProgress ls postId 0 PostFailed (updatePostStatus postId PostFailed w2)))"
      using post np by (rule trans)
    then have "R w2 (snd (andThen (notifyProgress ls postId 0 PostFailed
                            (updatePostStatus postId PostFailed w2))
                   (\<lambda>u w3. (Returned False, w3))))"
      using ret trans by (rule andThen_rel)
    with r have "R w1 (snd (andThen (notifyProgress ls postId 0 PostFailed
                            (updatePostStatus postId PostFailed w2))
                   (\<lambda>u w3. (Returned False, w3))))"
      by (rule trans)
    with b r show ?thesis
      by (cases res) simp_all
  qed
  have "R w (snd (notifyProgress ls postId 0 PostDownloading
                     (updatePostStatus postId PostDownloading w)))"
    using post np by (rule trans)
  then have "R w (snd (andThen (notifyProgress ls postId 0 PostDownloading
                     (updatePostStatus postId PostDownloading w)) (\<lambda>u w1.
            (case downloadPostBody rnd e ls postId p w1 of
               (Returned b, w2) \<Rightarrow> (Returned b, w2)
             | (Thrown err, w2) \<Rightarrow>
                 andThen (notifyProgress ls postId 0 PostFailed
                            (updatePostStatus postId PostFailed w2))
                   (\<lambda>u w3. (Returned False, w3))))))"
    using catch trans by (rule andThen_rel)
  with Some show ?thesis by (simp add: downloadPost_def)
qed

lemma analyzePost_keeps:
  "tbl_download_tasks (snd (analyzePost e postId w)) = tbl_download_tasks w"
  "tbl_posts (snd (analyzePost e postId w)) = tbl_posts w"
  "tbl_content (snd (analyzePost e postId w)) = tbl_content w"
  "tbl_media (snd (analyzePost e postId w)) = tbl_media w"
  "published (snd (analyzePost e postId w)) = published w"
  "transfers (snd (analyzePost e postId w)) = transfers w"
  by (simp_all add: analyzePost_def Let_def split_beta createAIResult_def getOrCreateGroup_def
      createGroup_def incrementGroupPostCount_def
      split: option.splits sum.splits)

section \<open>The task record\<close>

text \<open>
  Claim C3, at an input where it fails. The post has a queued task record and the crawl
  fails with the message \<open>timeout\<close>: the post ends failed, and the task record is still
  queued and carries no error message.
\<close>

theorem crawl_failure_leaves_task_queued:
  "map post_downloadStatus
     (tbl_posts (snd (downloadPost binary64 timeoutEnv [quietListener] 1 exampleWorld))) =
     [PostFailed]
   \<and> map task_status
       (tbl_download_tasks (snd (downloadPost binary64 timeoutEnv [quietListener] 1 exampleWorld))) =
     [TaskQueued]
   \<and> map task_errorMessage
       (tbl_download_tasks (snd (downloadPost binary64 timeoutEnv [quietListener] 1 exampleWorld))) =
     [None]"
  by code_simp

text \<open>
  Claim C3 as amended. A run of \<^verbatim>\<open>downloadPost\<close> leaves the table of task records as it
  found it, whatever the environment and the listeners do: the download manager keeps no
  task record.
\<close>

theorem downloadPost_keeps_no_task_record:
  "tbl_download_tasks (snd (downloadPost rnd e ls postId w)) = tbl_download_tasks w"
  by (rule downloadPost_rel [where R = "\<lambda>w w'. tbl_download_tasks w' = tbl_download_tasks w"])
     (simp_all add: updatePostStatus_def saveContent_def createContent_def createMedia_def
        updateMediaStatus_def updateMedia_def analyzePost_keeps Let_def split: option.splits)

section \<open>A run in which no listener throws\<close>

lemma loop_result_neverThrows:
  "neverThrows ls \<Longrightarrow>
   fst (downloadMediaLoop rnd e ls postId len ms c hf w) =
     Returned (\<not> hf \<and> (\<forall>m \<in> set ms. mediaOutcome e postId m \<noteq> MediaFailed))"
proof (induction ms arbitrary: c hf w)
  case Nil
  show ?case by simp
next
  case (Cons m ms)
  show ?case
  proof (cases "media_type m = Video \<and> \<not> isVideoWithinLimit e (media_remoteUrl m)")
    case True
    then have skip: "(media_type m = Video \<and> \<not> isVideoWithinLimit e (media_remoteUrl m)) = True"
      by simp
    from True have "mediaOutcome e postId m = MediaSkipped"
      by (simp add: mediaOutcome_def oversizeVideo_def)
    with Cons show ?thesis
      by (simp add: skip Let_def onProgress_def notifyProgress_neverThrows)
  next
    case False
    then have "mediaOutcome e postId m = MediaFailed \<longleftrightarrow> \<not> transferSucceeds e postId m"
      by (auto simp: mediaOutcome_def oversizeVideo_def)
    with False Cons show ?thesis
      by (auto simp: Let_def onProgress_def notifyProgress_neverThrows andThen_def split_beta
          downloadFile_def transferSucceeds_def mediaLocalPath_def
          split: sum.splits option.splits)
  qed
qed

lemma statusView_updateMediaStatus:
  "statusView (tbl_media (updateMediaStatus i st lp fs w)) =
     map (\<lambda>row. if fst row = i then (fst row, st) else row) (statusView (tbl_media w))"
  by (simp add: statusView_def updateMediaStatus_def updateMedia_def comp_def)

lemma updateMediaStatus_keeps:
  "transfers (updateMediaStatus i st lp fs w) = transfers w"
  "published (updateMediaStatus i st lp fs w) = published w"
  "tbl_posts (updateMediaStatus i st lp fs w) = tbl_posts w"
  by (simp_all add: updateMediaStatus_def updateMedia_def)

lemma downloadFile_world:
  "snd (downloadFile e url path w) = w\<lparr>transfers := transfers w @ [(url, path)]\<rparr>"
  by (simp add: downloadFile_def Let_def split: sum.splits option.splits prod.splits)

lemma downloadFile_ok:
  "(dr_success (fst (downloadFile e (media_remoteUrl m) (mediaLocalPath e postId m) w))
      \<and> dr_localPath (fst (downloadFile e (media_remoteUrl m) (mediaLocalPath e postId m) w)) \<noteq> None
      \<and> dr_localPath (fst (downloadFile e (media_remoteUrl m) (mediaLocalPath e postId m) w)) \<noteq> Some [])
   = transferSucceeds e postId m"
  by (auto simp: downloadFile_def transferSucceeds_def Let_def split: sum.splits option.splits)

lemma settleRecord_statusView:
  "statusView (tbl_media (settleRecord e postId m w)) =
     map (\<lambda>row. if fst row = media_id m then (fst row, mediaOutcome e postId m) else row)
       (statusView (tbl_media w))"
  by (auto simp: settleRecord_def mediaOutcome_def statusView_updateMediaStatus split_beta
      Let_def downloadFile_world)

lemma settleRecord_transfers:
  "transfers (settleRecord e postId m w) =
     transfers w @
       (if oversizeVideo e m then [] else [(media_remoteUrl m, mediaLocalPath e postId m)])"
  by (simp add: settleRecord_def updateMediaStatus_keeps split_beta Let_def downloadFile_world)

lemma settleRecord_keeps:
  "published (settleRecord e postId m w) = published w"
  "tbl_posts (settleRecord e postId m w) = tbl_posts w"
  by (simp_all add: settleRecord_def updateMediaStatus_keeps split_beta Let_def
      downloadFile_world)

lemma loop_Cons_neverThrows:
  assumes "neverThrows ls"
  shows "downloadMediaLoop rnd e ls postId len (m # ms) c hf w =
           downloadMediaLoop rnd e ls postId len ms (Suc c)
             (hf \<or> mediaOutcome e postId m = MediaFailed)
             (snd (notifyProgress ls postId (progressOf rnd len (Suc c)) PostDownloading
                (settleRecord e postId m w)))"
proof (cases "oversizeVideo e m")
  case True
  then have skip: "(media_type m = Video \<and> \<not> isVideoWithinLimit e (media_remoteUrl m)) = True"
    by (simp add: oversizeVideo_def)
  from True have "mediaOutcome e postId m = MediaSkipped"
    by (simp add: mediaOutcome_def)
  with assms True show ?thesis
    by (simp add: skip Let_def onProgress_def notifyProgress_neverThrows settleRecord_def
        progressOf_def)
next
  case False
  then have nf: "(media_type m = Video \<and> \<not> isVideoWithinLimit e (media_remoteUrl m)) = False"
    by (simp add: oversizeVideo_def)
  from False have out: "(mediaOutcome e postId m = MediaFailed) = (\<not> transferSucceeds e postId m)"
    by (simp add: mediaOutcome_def)
  let ?w1 = "updateMediaStatus (media_id m) MediaDownloading None None w"
  obtain result w2
    where df: "downloadFile e (media_remoteUrl m) (mediaLocalPath e postId m) ?w1 = (result, w2)"
    by (cases "downloadFile e (media_remoteUrl m) (mediaLocalPath e postId m) ?w1")
  from downloadFile_ok [of e m postId ?w1] df
  have ok: "(dr_success result \<and> dr_localPath result \<noteq> None \<and> dr_localPath result \<noteq> Some [])
      = transferSucceeds e postId m"
    by simp
  show ?thesis
  proof (cases "transferSucceeds e postId m")
    case True
    with ok have "dr_success result" "dr_localPath result \<noteq> None" "dr_localPath result \<noteq> Some []"
      by simp_all
    with assms False True df show ?thesis
      by (auto simp: nf out Let_def onProgress_def notifyProgress_neverThrows andThen_def
          settleRecord_def progressOf_def mediaLocalPath_def [symmetric])
  next
    case no: False
    with ok have "\<not> (dr_success result \<and> dr_localPath result \<noteq> None \<and> dr_localPath result \<noteq> Some [])"
      by simp
    then have "(dr_success result \<and> dr_localPath result \<noteq> None \<and> dr_localPath result \<noteq> Some []) = False"
      by simp
    with assms False no df show ?thesis
      by (auto simp: nf out Let_def onProgress_def notifyProgress_neverThrows andThen_def
          settleRecord_def progressOf_def mediaLocalPath_def [symmetric])
  qed
qed

lemma createMediaBatch_eq:
  "createMediaBatch inputs w =
     (newRecords (nextId w) inputs,
      w\<lparr>tbl_media := tbl_media w @ newRecords (nextId w) inputs,
        nextId := nextId w + length inputs\<rparr>)"
  by (induction inputs arbitrary: w) (simp_all add: createMedia_def Let_def)

lemma newRecords_ids: "map media_id (newRecords n inputs) = [n..<n + length inputs]"
  by (induction inputs arbitrary: n) (simp_all add: upt_rec)

lemma newRecords_length [simp]: "length (newRecords n inputs) = length inputs"
  by (induction inputs arbitrary: n) simp_all

lemma newRecords_distinct: "distinct (map media_id (newRecords n inputs))"
  by (simp add: newRecords_ids)

lemma notifyProgress_keeps:
  "published (snd (notifyProgress ls postId x st w)) = published w @ [(postId, x, st)]"
  "tbl_posts (snd (notifyProgress ls postId x st w)) = tbl_posts w"
  "tbl_media (snd (notifyProgress ls postId x st w)) = tbl_media w"
  "tbl_content (snd (notifyProgress ls postId x st w)) = tbl_content w"
  "transfers (snd (notifyProgress ls postId x st w)) = transfers w"
  "nextId (snd (notifyProgress ls postId x st w)) = nextId w"
  using notifyProgress_frame [of ls postId x st w] by auto

lemma andThen_Returned: "fst r = Returned a \<Longrightarrow> andThen r k = k a (snd r)"
  by (cases r) (simp add: andThen_def)

lemma notifyProgress_returns:
  "neverThrows ls \<Longrightarrow> fst (notifyProgress ls postId x st w) = Returned ()"
  by (simp add: notifyProgress_neverThrows)

lemma loop_published:
  "neverThrows ls \<Longrightarrow>
   published (snd (downloadMediaLoop rnd e ls postId len ms c hf w)) =
     published w @
       map (\<lambda>k. (postId, progressOf rnd len k, PostDownloading)) [Suc c..<Suc c + length ms]"
proof (induction ms arbitrary: c hf w)
  case Nil
  show ?case by simp
next
  case (Cons m ms)
  have "[Suc c..<Suc c + length (m # ms)] = Suc c # [Suc (Suc c)..<Suc (Suc c) + length ms]"
    by (simp add: upt_rec)
  with Cons show ?case
    by (simp add: loop_Cons_neverThrows notifyProgress_keeps settleRecord_keeps
        del: downloadMediaLoop.simps)
qed

lemma loop_transfers:
  "neverThrows ls \<Longrightarrow>
   transfers (snd (downloadMediaLoop rnd e ls postId len ms c hf w)) =
     transfers w @
       map (\<lambda>m. (media_remoteUrl m, mediaLocalPath e postId m))
         (filter (\<lambda>m. \<not> oversizeVideo e m) ms)"
  by (induction ms arbitrary: c hf w)
     (simp_all add: loop_Cons_neverThrows notifyProgress_keeps settleRecord_transfers
        del: downloadMediaLoop.simps(2))

lemma settle_Cons:
  "media_id m \<notin> media_id ` set ms \<Longrightarrow>
   settle e postId ms (if fst row = media_id m then (fst row, mediaOutcome e postId m) else row)
     = settle e postId (m # ms) row"
proof -
  assume "media_id m \<notin> media_id ` set ms"
  then have "find (\<lambda>x. media_id x = media_id m) ms = None"
    unfolding find_None_iff by (metis image_eqI)
  then show ?thesis
    by (cases "fst row = media_id m") (auto simp: settle_def)
qed

lemma loop_statusView:
  "neverThrows ls \<Longrightarrow> distinct (map media_id ms) \<Longrightarrow>
   statusView (tbl_media (snd (downloadMediaLoop rnd e ls postId len ms c hf w))) =
     map (settle e postId ms) (statusView (tbl_media w))"
proof (induction ms arbitrary: c hf w)
  case Nil
  show ?case by (simp add: settle_def)
next
  case (Cons m ms)
  then have fresh: "media_id m \<notin> media_id ` set ms" and "distinct (map media_id ms)"
    by auto
  with Cons show ?case
    by (simp add: loop_Cons_neverThrows notifyProgress_keeps settleRecord_statusView
        comp_def settle_Cons del: downloadMediaLoop.simps)
qed

lemma settle_self:
  assumes "distinct (map media_id ms)"
  shows "map (settle e postId ms) (statusView ms) =
           map (\<lambda>m. (media_id m, mediaOutcome e postId m)) ms"
proof -
  have "find (\<lambda>x. media_id x = media_id m) ms = Some m" if "m \<in> set ms" for m
    using assms that
  proof (induction ms)
    case Nil
    then show ?case by simp
  next
    case (Cons a ms)
    then show ?case by (cases "media_id a = media_id m") (auto simp: rev_image_eqI)
  qed
  then show ?thesis
    by (simp add: statusView_def settle_def comp_def cong: map_cong)
qed

lemma toCreateMediaInputs_length [simp]:
  "length (toCreateMediaInputs postId mediaItems) = length mediaItems"
  by (simp add: toCreateMediaInputs_def)

lemma downloadMedia_keeps:
  "tbl_posts (snd (downloadMedia rnd e ls postId mediaItems w)) = tbl_posts w"
  "tbl_content (snd (downloadMedia rnd e ls postId mediaItems w)) = tbl_content w"
  by (rule downloadMedia_rel [where R = "\<lambda>w w'. tbl_posts w' = tbl_posts w"],
      simp_all add: createMedia_def updateMediaStatus_def updateMedia_def Let_def)
     (rule downloadMedia_rel [where R = "\<lambda>w w'. tbl_content w' = tbl_content w"],
      simp_all add: createMedia_def updateMediaStatus_def updateMedia_def Let_def)

lemma downloadMedia_neverThrows:
  fixes mediaItems postId w
  defines "rs \<equiv> newRecords (nextId w) (toCreateMediaInputs postId mediaItems)"
  assumes nt: "neverThrows ls"
  shows "fst (downloadMedia rnd e ls postId mediaItems w) =
           Returned (\<forall>m \<in> set rs. mediaOutcome e postId m \<noteq> MediaFailed)"
    and "published (snd (downloadMedia rnd e ls postId mediaItems w)) =
           published w @
             map (\<lambda>x. (postId, x, PostDownloading)) (mediaStageProgress rnd (length mediaItems))"
    and "transfers (snd (downloadMedia rnd e ls postId mediaItems w)) =
           transfers w @
             map (\<lambda>m. (media_remoteUrl m, mediaLocalPath e postId m))
               (filter (\<lambda>m. \<not> oversizeVideo e m) rs)"
    and "statusView (tbl_media (snd (downloadMedia rnd e ls postId mediaItems w))) =
           map (settle e postId rs) (statusView (tbl_media w)) @
             map (\<lambda>m. (media_id m, mediaOutcome e postId m)) rs"
proof -
  show "fst (downloadMedia rnd e ls postId mediaItems w) =
           Returned (\<forall>m \<in> set rs. mediaOutcome e postId m \<noteq> MediaFailed)"
  proof (cases "mediaItems = []")
    case True
    with nt show ?thesis
      by (simp add: downloadMedia_def onProgress_def notifyProgress_neverThrows andThen_def
          rs_def toCreateMediaInputs_def)
  next
    case False
    with nt show ?thesis
      by (simp add: downloadMedia_def createMediaBatch_eq loop_result_neverThrows rs_def)
  qed
  show "published (snd (downloadMedia rnd e ls postId mediaItems w)) =
           published w @
             map (\<lambda>x. (postId, x, PostDownloading)) (mediaStageProgress rnd (length mediaItems))"
  proof (cases "mediaItems = []")
    case True
    with nt show ?thesis
      by (simp add: downloadMedia_def onProgress_def notifyProgress_neverThrows andThen_def
          mediaStageProgress_def)
  next
    case False
    with nt show ?thesis
      by (simp add: downloadMedia_def createMediaBatch_eq loop_published mediaStageProgress_def
          comp_def)
  qed
  show "transfers (snd (downloadMedia rnd e ls postId mediaItems w)) =
           transfers w @
             map (\<lambda>m. (media_remoteUrl m, mediaLocalPath e postId m))
               (filter (\<lambda>m. \<not> oversizeVideo e m) rs)"
  proof (cases "mediaItems = []")
    case True
    with nt show ?thesis
      by (simp add: downloadMedia_def onProgress_def notifyProgress_neverThrows andThen_def
          rs_def toCreateMediaInputs_def)
  next
    case False
    with nt show ?thesis
      by (simp add: downloadMedia_def createMediaBatch_eq loop_transfers rs_def)
  qed
  show "statusView (tbl_media (snd (downloadMedia rnd e ls postId mediaItems w))) =
           map (settle e postId rs) (statusView (tbl_media w)) @
             map (\<lambda>m. (media_id m, mediaOutcome e postId m)) rs"
  proof (cases "mediaItems = []")
    case True
    have "settle e postId [] = (\<lambda>row. row)"
      by (rule ext) (simp add: settle_def)
    with nt True show ?thesis
      by (simp add: downloadMedia_def onProgress_def notifyProgress_neverThrows andThen_def
          rs_def toCreateMediaInputs_def)
  next
    case False
    have "statusView (tbl_media w @ rs) = statusView (tbl_media w) @ statusView rs"
      by (simp add: statusView_def)
    moreover have "distinct (map media_id rs)"
      unfolding rs_def by (rule newRecords_distinct)
    ultimately show ?thesis
      using nt False
      by (simp add: downloadMedia_def createMediaBatch_eq loop_statusView rs_def [symmetric]
          settle_self)
  qed
qed

lemma andThen_notify:
  "neverThrows ls \<Longrightarrow>
   andThen (notifyProgress ls postId x st w) k = k () (snd (notifyProgress ls postId x st w))"
  by (simp add: notifyProgress_neverThrows andThen_def)

lemma saveContent_keeps:
  "tbl_posts (saveContent postId c w) = tbl_posts w"
  "tbl_media (saveContent postId c w) = tbl_media w"
  "published (saveContent postId c w) = published w"
  "transfers (saveContent postId c w) = transfers w"
  by (simp_all add: saveContent_def createContent_def split: option.splits)

lemma updatePostStatus_keeps:
  "tbl_media (updatePostStatus postId st w) = tbl_media w"
  "tbl_content (updatePostStatus postId st w) = tbl_content w"
  "published (updatePostStatus postId st w) = published w"
  "transfers (updatePostStatus postId st w) = transfers w"
  "nextId (updatePostStatus postId st w) = nextId w"
  by (simp_all add: updatePostStatus_def)

lemma saveContent_nextId:
  "tbl_content w' = tbl_content w \<Longrightarrow> nextId w' = nextId w \<Longrightarrow>
   nextId (saveContent postId c w') = nextId (saveContent postId c w)"
  by (simp add: saveContent_def createContent_def getContentByPostId_def split: option.splits)

lemma downloadPostBody_neverThrows:
  assumes nt: "neverThrows ls"
    and ok: "cr_success (crawlPost e (post_url p))"
    and content: "cr_content (crawlPost e (post_url p)) = Some c"
  shows "downloadPostBody rnd e ls postId p w =
     (let w1 = snd (notifyProgress ls postId (rnd (3 / 10)) PostDownloading w);
          w2 = snd (notifyProgress ls postId (rnd (2 / 5)) PostDownloading
                      (saveContent postId c w1));
          w3 = snd (downloadMedia rnd e ls postId (cc_media c) w2);
          w4 = snd (notifyProgress ls postId (rnd (17 / 20)) PostDownloading w3);
          w5 = snd (analyzePost e postId w4);
          finalStatus = finalStatusOf e postId
                          (newRecords (nextId w2) (toCreateMediaInputs postId (cc_media c)))
      in (Returned True,
          snd (notifyProgress ls postId 1 finalStatus (updatePostStatus postId finalStatus w5))))"
  using nt ok content
  by (simp add: downloadPostBody_def Let_def andThen_notify split_beta finalStatusOf_def
      andThen_Returned [OF downloadMedia_neverThrows(1)])

lemma find_map_update:
  "find P xs = Some p \<Longrightarrow> (\<And>x. P (f x) = P x) \<Longrightarrow> find P (map f xs) = Some (f p)"
  by (induction xs) (auto split: if_splits)

lemma getPostById_updatePostStatus:
  "getPostById postId w = Some p \<Longrightarrow>
   tbl_posts w' = map (\<lambda>q. if post_id q = postId then q\<lparr>post_downloadStatus := st\<rparr> else q) (tbl_posts w) \<Longrightarrow>
   getPostById postId w' = Some (p\<lparr>post_downloadStatus := st\<rparr>)"
proof -
  assume a: "getPostById postId w = Some p"
    and b: "tbl_posts w' = map (\<lambda>q. if post_id q = postId then q\<lparr>post_downloadStatus := st\<rparr> else q) (tbl_posts w)"
  from a have "post_id p = postId"
    by (auto simp: getPostById_def find_Some_iff)
  with find_map_update [of "\<lambda>q. post_id q = postId" "tbl_posts w" p
      "\<lambda>q. if post_id q = postId then q\<lparr>post_downloadStatus := st\<rparr> else q"] a b
  show ?thesis by (simp add: getPostById_def)
qed

lemma updatePostStatus_posts:
  "tbl_posts (updatePostStatus postId st w) =
     map (\<lambda>q. if post_id q = postId then q\<lparr>post_downloadStatus := st\<rparr> else q) (tbl_posts w)"
  by (simp add: updatePostStatus_def)

lemma downloadPost_neverThrows:
  assumes nt: "neverThrows ls"
    and post: "getPostById postId w = Some p"
    and ok: "cr_success (crawlPost e (post_url p))"
    and content: "cr_content (crawlPost e (post_url p)) = Some c"
  shows "downloadPost rnd e ls postId w =
           downloadPostBody rnd e ls postId p
             (snd (notifyProgress ls postId 0 PostDownloading
                     (updatePostStatus postId PostDownloading w)))"
  using nt post by (simp add: downloadPost_def andThen_notify
      downloadPostBody_neverThrows [OF nt ok content] Let_def)

lemma run_summary:
  fixes rnd :: "rat \<Rightarrow> rat"
  assumes nt: "neverThrows ls"
    and post: "getPostById postId w = Some p"
    and ok: "cr_success (crawlPost e (post_url p))"
    and content: "cr_content (crawlPost e (post_url p)) = Some c"
  defines "rs \<equiv> runRecords postId c w"
  defines "w' \<equiv> snd (downloadPost rnd e ls postId w)"
  shows "fst (downloadPost rnd e ls postId w) = Returned True"
    and "tbl_posts w' =
           map (\<lambda>q. if post_id q = postId
                     then q\<lparr>post_downloadStatus := finalStatusOf e postId rs\<rparr> else q)
             (tbl_posts w)"
    and "statusView (tbl_media w') =
           map (settle e postId rs) (statusView (tbl_media w)) @
             map (\<lambda>m. (media_id m, mediaOutcome e postId m)) rs"
    and "transfers w' =
           transfers w @
             map (\<lambda>m. (media_remoteUrl m, mediaLocalPath e postId m))
               (filter (\<lambda>m. \<not> oversizeVideo e m) rs)"
    and "published w' =
           published w @
             (postId, 0, PostDownloading) # (postId, rnd (3 / 10), PostDownloading) #
             (postId, rnd (2 / 5), PostDownloading) #
             map (\<lambda>x. (postId, x, PostDownloading)) (mediaStageProgress rnd (length (cc_media c))) @
             [(postId, rnd (17 / 20), PostDownloading), (postId, 1, finalStatusOf e postId rs)]"
proof -
  let ?w0 = "snd (notifyProgress ls postId 0 PostDownloading
                     (updatePostStatus postId PostDownloading w))"
  let ?w1 = "snd (notifyProgress ls postId (rnd (3 / 10)) PostDownloading ?w0)"
  let ?w2 = "snd (notifyProgress ls postId (rnd (2 / 5)) PostDownloading
                      (saveContent postId c ?w1))"
  have "nextId (saveContent postId c ?w1) = nextId (saveContent postId c w)"
    by (rule saveContent_nextId) (simp_all add: notifyProgress_keeps updatePostStatus_keeps)
  then have rs: "newRecords (nextId (saveContent postId c ?w1))
                    (toCreateMediaInputs postId (cc_media c)) = rs"
    by (simp add: rs_def runRecords_def)
  note eq = downloadPost_neverThrows [OF nt post ok content, of rnd]
    downloadPostBody_neverThrows [OF nt ok content, of rnd postId ?w0]
  show "fst (downloadPost rnd e ls postId w) = Returned True"
    by (simp add: eq Let_def)
  show "tbl_posts w' =
           map (\<lambda>q. if post_id q = postId
                     then q\<lparr>post_downloadStatus := finalStatusOf e postId rs\<rparr> else q)
             (tbl_posts w)"
    by (simp add: w'_def eq Let_def rs notifyProgress_keeps analyzePost_keeps downloadMedia_keeps
        saveContent_keeps updatePostStatus_posts comp_def if_distrib cong: if_cong)
  show "statusView (tbl_media w') =
           map (settle e postId rs) (statusView (tbl_media w)) @
             map (\<lambda>m. (media_id m, mediaOutcome e postId m)) rs"
    by (simp add: w'_def eq Let_def notifyProgress_keeps analyzePost_keeps
        updatePostStatus_keeps downloadMedia_neverThrows [OF nt] rs saveContent_keeps)
  show "transfers w' =
           transfers w @
             map (\<lambda>m. (media_remoteUrl m, mediaLocalPath e postId m))
               (filter (\<lambda>m. \<not> oversizeVideo e m) rs)"
    by (simp add: w'_def eq Let_def notifyProgress_keeps analyzePost_keeps
        updatePostStatus_keeps downloadMedia_neverThrows [OF nt] rs saveContent_keeps)
  show "published w' =
           published w @
             (postId, 0, PostDownloading) # (postId, rnd (3 / 10), PostDownloading) #
             (postId, rnd (2 / 5), PostDownloading) #
             map (\<lambda>x. (postId, x, PostDownloading)) (mediaStageProgress rnd (length (cc_media c))) @
             [(postId, rnd (17 / 20), PostDownloading), (postId, 1, finalStatusOf e postId rs)]"
    by (simp add: w'_def eq Let_def notifyProgress_keeps analyzePost_keeps
        updatePostStatus_keeps downloadMedia_neverThrows [OF nt] rs saveContent_keeps)
qed

lemma length_statusView [simp]: "length (statusView tbl) = length tbl"
  by (simp add: statusView_def)

lemma runMedia_statuses:
  fixes rnd :: "rat \<Rightarrow> rat"
  assumes nt: "neverThrows ls"
    and post: "getPostById postId w = Some p"
    and ok: "cr_success (crawlPost e (post_url p))"
    and content: "cr_content (crawlPost e (post_url p)) = Some c"
  shows "map media_downloadStatus (runMedia w (snd (downloadPost rnd e ls postId w))) =
           map (mediaOutcome e postId) (runRecords postId c w)"
proof -
  let ?w' = "snd (downloadPost rnd e ls postId w)"
  have "statusView (runMedia w ?w') = drop (length (tbl_media w)) (statusView (tbl_media ?w'))"
    by (simp add: runMedia_def statusView_def drop_map)
  also have "\<dots> = map (\<lambda>m. (media_id m, mediaOutcome e postId m)) (runRecords postId c w)"
    by (simp add: run_summary(3) [OF nt post ok content])
  finally have "map snd (statusView (runMedia w ?w')) =
      map snd (map (\<lambda>m. (media_id m, mediaOutcome e postId m)) (runRecords postId c w))"
    by simp
  then show ?thesis by (simp add: statusView_def comp_def)
qed

lemma runRecords_length [simp]: "length (runRecords postId c w) = length (cc_media c)"
  by (simp add: runRecords_def)

lemma map_eq_member: "map f xs = ys \<Longrightarrow> y \<in> set ys \<Longrightarrow> \<exists>x \<in> set xs. f x = y"
  by auto

lemma quiet_neverThrows: "neverThrows [quietListener]"
  by (simp add: neverThrows_def quietListener_def)

lemma examplePost_found: "getPostById 1 exampleWorld = Some examplePost"
  by code_simp

lemma gallery_crawl:
  "cr_success (crawlPost galleryEnv (post_url examplePost))"
  "cr_content (crawlPost galleryEnv (post_url examplePost)) = Some galleryContent"
  by code_simp+

lemma gallery_outcomes:
  "map (mediaOutcome galleryEnv 1) (runRecords 1 galleryContent exampleWorld) =
     [MediaCompleted, MediaSkipped, MediaFailed]"
  by code_simp

lemma downloadPost_crawl_failure:
  assumes nt: "neverThrows ls"
    and post: "getPostById postId w = Some p"
    and fail: "\<not> cr_success (crawlPost e (post_url p)) \<or> cr_content (crawlPost e (post_url p)) = None"
  shows "downloadPost rnd e ls postId w =
      (Returned False,
       snd (notifyProgress ls postId 0 PostFailed
         (updatePostStatus postId PostFailed
           (snd (notifyProgress ls postId 0 PostDownloading
              (updatePostStatus postId PostDownloading w))))))"
proof -
  from fail have none:
    "(if cr_success (crawlPost e (post_url p)) then cr_content (crawlPost e (post_url p)) else None)
       = None"
    by auto
  with nt post show ?thesis
    by (simp add: downloadPost_def downloadPostBody_def andThen_notify Let_def)
qed

section \<open>The final status of the post\<close>

text \<open>
  Claim C1, at an input where it fails. The crawl succeeds and the post has no media; a
  listener throws on the first notification whose fraction is not zero (the one of
  \<open>0.3\<close>). \<^verbatim>\<open>notifyProgress\<close> lets the exception through, the \<^verbatim>\<open>catch\<close> of
  \<^verbatim>\<open>downloadPost\<close> takes it for a failure of the download, and the post ends failed, not
  completed.
\<close>

theorem listener_exception_fails_crawled_post:
  "cr_success (crawlPost textOnlyEnv (post_url examplePost))
   \<and> cr_content (crawlPost textOnlyEnv (post_url examplePost)) = Some textOnlyContent
   \<and> cc_media textOnlyContent = []
   \<and> map post_downloadStatus
       (tbl_posts (snd (downloadPost binary64 textOnlyEnv [pickyListener] 1 exampleWorld))) =
       [PostFailed]"
  by code_simp

theorem listener_exception_fails_crawled_post_witness:
  "cr_success (crawlPost textOnlyEnv (post_url examplePost))
   \<and> map post_downloadStatus
       (tbl_posts (snd (downloadPost binary64 textOnlyEnv [pickyListener] 1 exampleWorld))) \<noteq>
       [PostCompleted]"
  using listener_exception_fails_crawled_post by simp

text \<open>
  The final status when no listener throws. In a run on an existing post in which the
  crawl succeeds, \<^verbatim>\<open>downloadPost\<close> returns \<^verbatim>\<open>true\<close>, one media record is created per
  media reference, and the post ends partial if one of these records ended failed and
  completed otherwise: completed when there is no media, partial when every record failed,
  and in no case failed.
\<close>

lemma post_status_follows_media_failures:
  fixes rnd :: "rat \<Rightarrow> rat"
  assumes nt: "neverThrows ls"
    and post: "getPostById postId w = Some p"
    and ok: "cr_success (crawlPost e (post_url p))"
    and content: "cr_content (crawlPost e (post_url p)) = Some c"
  defines "w' \<equiv> snd (downloadPost rnd e ls postId w)"
  shows "fst (downloadPost rnd e ls postId w) = Returned True
       \<and> length (runMedia w w') = length (cc_media c)
       \<and> getPostById postId w' =
           Some (p\<lparr>post_downloadStatus :=
                    (if \<exists>m \<in> set (runMedia w w'). media_downloadStatus m = MediaFailed
                     then PostPartial else PostCompleted)\<rparr>)
       \<and> (cc_media c = [] \<longrightarrow>
            getPostById postId w' = Some (p\<lparr>post_downloadStatus := PostCompleted\<rparr>))
       \<and> (cc_media c \<noteq> [] \<and> (\<forall>m \<in> set (runMedia w w'). media_downloadStatus m = MediaFailed) \<longrightarrow>
            getPostById postId w' = Some (p\<lparr>post_downloadStatus := PostPartial\<rparr>))"
proof -
  let ?rs = "runRecords postId c w"
  have st: "map media_downloadStatus (runMedia w w') = map (mediaOutcome e postId) ?rs"
    unfolding w'_def by (rule runMedia_statuses [OF nt post ok content])
  then have len: "length (runMedia w w') = length (cc_media c)"
    using length_map [of media_downloadStatus "runMedia w w'"] by simp
  have "(\<exists>m \<in> set (runMedia w w'). media_downloadStatus m = MediaFailed) \<longleftrightarrow>
      MediaFailed \<in> set (map media_downloadStatus (runMedia w w'))"
    by force
  also have "\<dots> \<longleftrightarrow> (\<exists>m \<in> set ?rs. mediaOutcome e postId m = MediaFailed)"
    unfolding st by force
  finally have fin: "finalStatusOf e postId ?rs =
      (if \<exists>m \<in> set (runMedia w w'). media_downloadStatus m = MediaFailed
       then PostPartial else PostCompleted)"
    by (auto simp: finalStatusOf_def)
  have getp: "getPostById postId w' = Some (p\<lparr>post_downloadStatus := finalStatusOf e postId ?rs\<rparr>)"
    using post run_summary(2) [OF nt post ok content, of rnd]
    unfolding w'_def by (rule getPostById_updatePostStatus)
  have empty: "cc_media c = [] \<longrightarrow> runMedia w w' = []"
    using len by auto
  have nonempty: "cc_media c \<noteq> [] \<longrightarrow> runMedia w w' \<noteq> []"
    using len by auto
  show ?thesis
    using run_summary(1) [OF nt post ok content, of rnd] len getp fin empty nonempty
    by (auto simp: neq_Nil_conv)
qed

lemma post_status_follows_media_failures_witness:
  "neverThrows [quietListener]
   \<and> getPostById 1 exampleWorld = Some examplePost
   \<and> cr_success (crawlPost galleryEnv (post_url examplePost))
   \<and> cr_content (crawlPost galleryEnv (post_url examplePost)) = Some galleryContent
   \<and> map media_downloadStatus
       (runMedia exampleWorld (snd (downloadPost binary64 galleryEnv [quietListener] 1 exampleWorld))) =
       [MediaCompleted, MediaSkipped, MediaFailed]
   \<and> getPostById 1 (snd (downloadPost binary64 galleryEnv [quietListener] 1 exampleWorld)) =
       Some (examplePost\<lparr>post_downloadStatus := PostPartial\<rparr>)"
proof -
  note h = quiet_neverThrows examplePost_found gallery_crawl
  have st: "map media_downloadStatus
       (runMedia exampleWorld (snd (downloadPost binary64 galleryEnv [quietListener] 1 exampleWorld))) =
       [MediaCompleted, MediaSkipped, MediaFailed]"
    using runMedia_statuses [OF h, of binary64] gallery_outcomes by simp
  then have "\<exists>m \<in> set (runMedia exampleWorld
      (snd (downloadPost binary64 galleryEnv [quietListener] 1 exampleWorld))).
        media_downloadStatus m = MediaFailed"
    by (rule map_eq_member) simp
  with post_status_follows_media_failures [OF h, of binary64] h st
  show ?thesis by simp
qed

text \<open>
  Claim C2, at an input where it fails. The crawl fails and a listener throws on the
  notification of the failure. \<^verbatim>\<open>notifyProgress\<close> lets the exception through, and the
  \<^verbatim>\<open>catch\<close> of \<^verbatim>\<open>downloadPost\<close> publishes the failure a second time: the broadcaster
  receives two terminal notifications for the post, the listener in front of the throwing
  one is told twice, and the promise is rejected.
\<close>

theorem throwing_listener_is_told_twice_of_failure:
  "\<not> cr_success (crawlPost timeoutEnv (post_url examplePost))
   \<and> published (snd (downloadPost binary64 timeoutEnv [quietListener, failureListener] 1 exampleWorld)) =
       [(1, 0, PostDownloading), (1, 0, PostFailed), (1, 0, PostFailed)]
   \<and> invoked (snd (downloadPost binary64 timeoutEnv [quietListener, failureListener] 1 exampleWorld)) =
       [(2, (1, 0, PostDownloading)), (4, (1, 0, PostDownloading)),
        (2, (1, 0, PostFailed)), (4, (1, 0, PostFailed)),
        (2, (1, 0, PostFailed)), (4, (1, 0, PostFailed))]
   \<and> map post_downloadStatus
       (tbl_posts (snd (downloadPost binary64 timeoutEnv [quietListener, failureListener] 1 exampleWorld))) =
       [PostFailed]
   \<and> fst (downloadPost binary64 timeoutEnv [quietListener, failureListener] 1 exampleWorld) =
       Thrown ''alert failed''"
  by code_simp

theorem throwing_listener_is_told_twice_of_failure_witness:
  "length (filter terminalStatus
     (map (snd \<circ> snd)
        (published (snd (downloadPost binary64 timeoutEnv [quietListener, failureListener] 1
                           exampleWorld))))) = 2"
  using throwing_listener_is_told_twice_of_failure by (simp add: terminalStatus_def)

text \<open>
  A failed crawl when no listener throws. In a run on an existing post in which the crawl
  fails, \<^verbatim>\<open>downloadPost\<close> returns \<^verbatim>\<open>false\<close>, the post ends failed, the media table is
  unchanged, and the run publishes two notifications, \<open>(postId, 0, downloading)\<close> and
  then \<open>(postId, 0, failed)\<close>, the one notification with a terminal status.
\<close>

lemma crawl_failure_marks_post_failed:
  fixes rnd :: "rat \<Rightarrow> rat"
  assumes nt: "neverThrows ls"
    and post: "getPostById postId w = Some p"
    and fail: "\<not> cr_success (crawlPost e (post_url p)) \<or> cr_content (crawlPost e (post_url p)) = None"
  defines "w' \<equiv> snd (downloadPost rnd e ls postId w)"
  shows "fst (downloadPost rnd e ls postId w) = Returned False
       \<and> getPostById postId w' = Some (p\<lparr>post_downloadStatus := PostFailed\<rparr>)
       \<and> tbl_media w' = tbl_media w
       \<and> published w' = published w @ [(postId, 0, PostDownloading), (postId, 0, PostFailed)]
       \<and> filter (\<lambda>n. terminalStatus (snd (snd n))) (drop (length (published w)) (published w')) =
           [(postId, 0, PostFailed)]"
proof -
  note eq = downloadPost_crawl_failure [OF nt post fail, of rnd]
  have posts: "tbl_posts w' =
      map (\<lambda>q. if post_id q = postId then q\<lparr>post_downloadStatus := PostFailed\<rparr> else q)
        (tbl_posts w)"
    by (simp add: w'_def eq notifyProgress_keeps updatePostStatus_posts comp_def if_distrib
        cong: if_cong)
  have getp: "getPostById postId w' = Some (p\<lparr>post_downloadStatus := PostFailed\<rparr>)"
    using post posts by (rule getPostById_updatePostStatus)
  have pub: "published w' = published w @ [(postId, 0, PostDownloading), (postId, 0, PostFailed)]"
    by (simp add: w'_def eq notifyProgress_keeps updatePostStatus_keeps)
  have med: "tbl_media w' = tbl_media w"
    by (simp add: w'_def eq notifyProgress_keeps updatePostStatus_keeps)
  show ?thesis
    using getp pub med by (simp add: eq terminalStatus_def)
qed

lemma crawl_failure_marks_post_failed_witness:
  "neverThrows [quietListener]
   \<and> getPostById 1 exampleWorld = Some examplePost
   \<and> \<not> cr_success (crawlPost timeoutEnv (post_url examplePost))
   \<and> downloadPost binary64 timeoutEnv [quietListener] 1 exampleWorld =
       (Returned False,
        exampleWorld\<lparr>tbl_posts := [examplePost\<lparr>post_downloadStatus := PostFailed\<rparr>],
                     published := [(1, 0, PostDownloading), (1, 0, PostFailed)],
                     invoked := [(2, (1, 0, PostDownloading)), (2, (1, 0, PostFailed))]\<rparr>)
   \<and> filter (\<lambda>n. terminalStatus (snd (snd n)))
        (published (snd (downloadPost binary64 timeoutEnv [quietListener] 1 exampleWorld))) =
        [(1, 0, PostFailed)]"
proof -
  have h3: "\<not> cr_success (crawlPost timeoutEnv (post_url examplePost))"
    by code_simp
  then have h3': "\<not> cr_success (crawlPost timeoutEnv (post_url examplePost))
      \<or> cr_content (crawlPost timeoutEnv (post_url examplePost)) = None"
    by simp
  have run: "downloadPost binary64 timeoutEnv [quietListener] 1 exampleWorld =
       (Returned False,
        exampleWorld\<lparr>tbl_posts := [examplePost\<lparr>post_downloadStatus := PostFailed\<rparr>],
                     published := [(1, 0, PostDownloading), (1, 0, PostFailed)],
                     invoked := [(2, (1, 0, PostDownloading)), (2, (1, 0, PostFailed))]\<rparr>)"
    by code_simp
  have pub: "published exampleWorld = []"
    by code_simp
  from crawl_failure_marks_post_failed [OF quiet_neverThrows examplePost_found h3', of binary64]
    quiet_neverThrows examplePost_found h3 run pub
  show ?thesis by simp
qed


section \<open>The size gate for video\<close>



lemma newRecords_transfers:
  "map (\<lambda>m. (media_remoteUrl m, mediaLocalPath e postId m))
     (filter (\<lambda>m. \<not> oversizeVideo e m)
        (newRecords n (map (\<lambda>(index, item).
            \<lparr>cmi_postId = postId, cmi_type = ref_type item, cmi_remoteUrl = ref_url item,
             cmi_sortOrder = index, cmi_fileSize = ref_fileSize item\<rparr>) (enumerate k mediaItems)))) =
   map (\<lambda>(index, item). (ref_url item, getMediaPath e postId index (ref_type item)))
     (filter (\<lambda>(index, item). \<not> (ref_type item = Video \<and> \<not> isVideoWithinLimit e (ref_url item)))
        (enumerate k mediaItems))"
  by (induction mediaItems arbitrary: n k)
     (simp_all add: oversizeVideo_def mediaLocalPath_def)

lemma runRecords_transfers:
  "map (\<lambda>m. (media_remoteUrl m, mediaLocalPath e postId m))
     (filter (\<lambda>m. \<not> oversizeVideo e m) (runRecords postId c w)) =
   map (\<lambda>(index, item). (ref_url item, getMediaPath e postId index (ref_type item)))
     (transferredItems e (cc_media c))"
  by (simp add: runRecords_def toCreateMediaInputs_def transferredItems_def newRecords_transfers)



lemma gallery_transfers:
  "map (\<lambda>(index, item). (ref_url item, getMediaPath galleryEnv 1 index (ref_type item)))
     (transferredItems galleryEnv (cc_media galleryContent)) =
   [(''a'', ''file:///data/media/images/1_0.jpg''), (''c'', ''file:///data/media/images/1_2.jpg'')]"
  by code_simp





section \<open>Retry\<close>

lemma gallery_first_run:
  "getPostById 1 (snd (downloadPost binary64 galleryEnv [quietListener] 1 exampleWorld)) =
     Some (examplePost\<lparr>post_downloadStatus := PostPartial\<rparr>)"
  "transfers (snd (downloadPost binary64 galleryEnv [quietListener] 1 exampleWorld)) =
     [(''a'', ''file:///data/media/images/1_0.jpg''), (''c'', ''file:///data/media/images/1_2.jpg'')]"
  "map media_downloadStatus
     (runMedia exampleWorld (snd (downloadPost binary64 galleryEnv [quietListener] 1 exampleWorld))) =
     [MediaCompleted, MediaSkipped, MediaFailed]"
proof -
  note h = quiet_neverThrows examplePost_found gallery_crawl
  have "finalStatusOf galleryEnv 1 (runRecords 1 galleryContent exampleWorld) = PostPartial"
    by code_simp
  with getPostById_updatePostStatus [OF examplePost_found run_summary(2) [OF h, of binary64]]
  show "getPostById 1 (snd (downloadPost binary64 galleryEnv [quietListener] 1 exampleWorld)) =
     Some (examplePost\<lparr>post_downloadStatus := PostPartial\<rparr>)"
    by simp
  have "transfers exampleWorld = []"
    by code_simp
  with run_summary(4) [OF h, of binary64] gallery_transfers
  show "transfers (snd (downloadPost binary64 galleryEnv [quietListener] 1 exampleWorld)) =
     [(''a'', ''file:///data/media/images/1_0.jpg''), (''c'', ''file:///data/media/images/1_2.jpg'')]"
    by (simp add: runRecords_transfers)
  show "map media_downloadStatus
     (runMedia exampleWorld (snd (downloadPost binary64 galleryEnv [quietListener] 1 exampleWorld))) =
     [MediaCompleted, MediaSkipped, MediaFailed]"
    using runMedia_statuses [OF h, of binary64] gallery_outcomes by simp
qed

lemma gallery_crawl_again:
  "cr_success (crawlPost galleryEnv (post_url (examplePost\<lparr>post_downloadStatus := PostPartial\<rparr>)))"
  "cr_content (crawlPost galleryEnv (post_url (examplePost\<lparr>post_downloadStatus := PostPartial\<rparr>))) =
     Some galleryContent"
  by code_simp+

text \<open>
  Claim C6, at an input where it fails. The first run completes the image \<open>a\<close>, skips the
  video and fails on the image \<open>c\<close>. The retry transfers \<open>a\<close> again, and \<open>c\<close>.
\<close>

theorem retry_downloads_completed_item_again:
  "map media_downloadStatus
     (runMedia exampleWorld (snd (downloadPost binary64 galleryEnv [quietListener] 1 exampleWorld))) =
     [MediaCompleted, MediaSkipped, MediaFailed]
   \<and> transfers (snd (downloadPost binary64 galleryEnv [quietListener] 1 exampleWorld)) =
       [(''a'', ''file:///data/media/images/1_0.jpg''), (''c'', ''file:///data/media/images/1_2.jpg'')]
   \<and> transfers (snd (retryDownload binary64 galleryEnv [quietListener] 1
                       (snd (downloadPost binary64 galleryEnv [quietListener] 1 exampleWorld)))) =
       [(''a'', ''file:///data/media/images/1_0.jpg''), (''c'', ''file:///data/media/images/1_2.jpg''),
        (''a'', ''file:///data/media/images/1_0.jpg''), (''c'', ''file:///data/media/images/1_2.jpg'')]"
proof -
  have "transfers (snd (downloadPost binary64 galleryEnv [quietListener] 1
                       (snd (downloadPost binary64 galleryEnv [quietListener] 1 exampleWorld)))) =
       [(''a'', ''file:///data/media/images/1_0.jpg''), (''c'', ''file:///data/media/images/1_2.jpg'')] @
       [(''a'', ''file:///data/media/images/1_0.jpg''), (''c'', ''file:///data/media/images/1_2.jpg'')]"
    using run_summary(4) [OF quiet_neverThrows gallery_first_run(1) gallery_crawl_again, of binary64]
      gallery_first_run(2) gallery_transfers
    by (simp add: runRecords_transfers)
  with gallery_first_run(2,3) show ?thesis
    by (simp add: retryDownload_def)
qed

text \<open>
  Claim C6 as amended. \<^verbatim>\<open>retryDownload\<close> is \<^verbatim>\<open>downloadPost\<close>. When the crawl succeeds
  and no listener throws, the retry appends one media record per media reference of the
  crawl and transfers every reference that passes the size gate, whatever the media
  records of earlier runs and their status are.
\<close>

theorem retry_transfers_every_item_again:
  fixes rnd :: "rat \<Rightarrow> rat"
  assumes nt: "neverThrows ls"
    and post: "getPostById postId w = Some p"
    and ok: "cr_success (crawlPost e (post_url p))"
    and content: "cr_content (crawlPost e (post_url p)) = Some c"
  defines "w' \<equiv> snd (retryDownload rnd e ls postId w)"
  shows "retryDownload rnd e ls postId w = downloadPost rnd e ls postId w
       \<and> length (tbl_media w') = length (tbl_media w) + length (cc_media c)
       \<and> transfers w' =
           transfers w @
             map (\<lambda>(index, item). (ref_url item, getMediaPath e postId index (ref_type item)))
               (transferredItems e (cc_media c))"
proof -
  have "length (statusView (tbl_media w')) = length (tbl_media w) + length (cc_media c)"
    unfolding w'_def retryDownload_def
    by (simp add: run_summary(3) [OF nt post ok content])
  then have len: "length (tbl_media w') = length (tbl_media w) + length (cc_media c)"
    by simp
  have tr: "transfers w' =
           transfers w @
             map (\<lambda>(index, item). (ref_url item, getMediaPath e postId index (ref_type item)))
               (transferredItems e (cc_media c))"
    unfolding w'_def retryDownload_def
    by (simp add: run_summary(4) [OF nt post ok content] runRecords_transfers)
  from len tr show ?thesis by (simp add: retryDownload_def)
qed

theorem retry_transfers_every_item_again_witness:
  "neverThrows [quietListener]
   \<and> getPostById 1 (snd (downloadPost binary64 galleryEnv [quietListener] 1 exampleWorld)) =
       Some (examplePost\<lparr>post_downloadStatus := PostPartial\<rparr>)
   \<and> cr_success (crawlPost galleryEnv (post_url (examplePost\<lparr>post_downloadStatus := PostPartial\<rparr>)))
   \<and> cr_content (crawlPost galleryEnv (post_url (examplePost\<lparr>post_downloadStatus := PostPartial\<rparr>))) =
       Some galleryContent
   \<and> transfers (snd (retryDownload binary64 galleryEnv [quietListener] 1
                       (snd (downloadPost binary64 galleryEnv [quietListener] 1 exampleWorld)))) =
       [(''a'', ''file:///data/media/images/1_0.jpg''), (''c'', ''file:///data/media/images/1_2.jpg''),
        (''a'', ''file:///data/media/images/1_0.jpg''), (''c'', ''file:///data/media/images/1_2.jpg'')]"
  using retry_transfers_every_item_again
          [OF quiet_neverThrows gallery_first_run(1) gallery_crawl_again, of binary64]
        quiet_neverThrows gallery_first_run(1,2) gallery_crawl_again gallery_transfers
  by (simp add: retryDownload_def)

section \<open>The progress fractions\<close>

lemma textOnly_run:
  "downloadPost binary64 textOnlyEnv [quietListener] 1 exampleWorld = (Returned True, savedWorld)"
  by code_simp

text \<open>
  Claim C7, at an input where it fails. The crawl succeeds, the post has no media and the
  listener never throws. The media stage publishes \<^verbatim>\<open>0.4 + 1 * 0.45\<close>, which in binary64
  is \<open>0.8500000000000001\<close>, and \<^verbatim>\<open>downloadPost\<close> then publishes the literal \<^verbatim>\<open>0.85\<close>,
  which is smaller: the fractions of the run are not in non-decreasing order.
\<close>

theorem progress_steps_back_after_media:
  "map (fst \<circ> snd)
     (published (snd (downloadPost binary64 textOnlyEnv [quietListener] 1 exampleWorld))) =
     [0, 5404319552844595 / 18014398509481984, 3602879701896397 / 9007199254740992,
      1914029841632461 / 2251799813685248, 7656119366529843 / 9007199254740992, 1]
   \<and> (7656119366529843 / 9007199254740992 :: rat) < 1914029841632461 / 2251799813685248
   \<and> \<not> sorted (map (fst \<circ> snd)
         (published (snd (downloadPost binary64 textOnlyEnv [quietListener] 1 exampleWorld))))"
  unfolding textOnly_run by (simp add: savedWorld_def)

text \<open>
  With exact arithmetic in place of binary64 the fractions of a run in which no listener
  throws are in non-decreasing order.
\<close>

lemma mediaStageProgress_exact:
  "sorted (mediaStageProgress (\<lambda>x. x) n)"
  "\<forall>x \<in> set (mediaStageProgress (\<lambda>x. x) n). 2 / 5 \<le> x \<and> x \<le> 17 / 20"
proof -
  have mono: "progressOf (\<lambda>x. x) n j \<le> progressOf (\<lambda>x. x) n k" if "j \<le> k" for j k
    using that by (simp add: progressOf_def divide_right_mono)
  have "sorted (map (progressOf (\<lambda>x. x) n) [1..<Suc n])"
    unfolding sorted_map
    by (rule sorted_wrt_mono_rel [OF _ sorted_upt]) (simp add: mono)
  then show "sorted (mediaStageProgress (\<lambda>x. x) n)"
    by (simp add: mediaStageProgress_def del: upt_Suc)
  have "2 / 5 \<le> progressOf (\<lambda>x. x) n k \<and> progressOf (\<lambda>x. x) n k \<le> 17 / 20"
    if "k \<le> n" "0 < n" for k
  proof -
    have "(of_nat k :: rat) / of_nat n \<le> 1" using that by simp
    moreover have "0 \<le> (of_nat k :: rat) / of_nat n" by simp
    ultimately show ?thesis
      by (simp add: progressOf_def)
  qed
  then show "\<forall>x \<in> set (mediaStageProgress (\<lambda>x. x) n). 2 / 5 \<le> x \<and> x \<le> 17 / 20"
    by (auto simp: mediaStageProgress_def simp del: upt_Suc)
qed

lemma progress_nondecreasing_exact:
  assumes nt: "neverThrows ls"
    and post: "getPostById postId w = Some p"
  shows "sorted (map (fst \<circ> snd)
           (drop (length (published w)) (published (snd (downloadPost (\<lambda>x. x) e ls postId w)))))"
proof (cases "cr_success (crawlPost e (post_url p)) \<and> cr_content (crawlPost e (post_url p)) \<noteq> None")
  case True
  then obtain c where ok: "cr_success (crawlPost e (post_url p))"
    and content: "cr_content (crawlPost e (post_url p)) = Some c"
    by auto
  show ?thesis
    using mediaStageProgress_exact [of "length (cc_media c)"]
    by (auto simp: run_summary(5) [OF nt post ok content] comp_def sorted_append)
next
  case False
  then have "\<not> cr_success (crawlPost e (post_url p)) \<or> cr_content (crawlPost e (post_url p)) = None"
    by simp
  from downloadPost_crawl_failure [OF nt post this, of "\<lambda>x. x"]
  show ?thesis by (simp add: notifyProgress_keeps updatePostStatus_keeps)
qed

section \<open>The content record\<close>

lemma contentStep_refl: "contentStep postId w w"
  by (simp add: contentStep_def)

lemma contentStep_same: "tbl_content w' = tbl_content w \<Longrightarrow> contentStep postId w w'"
  by (simp add: contentStep_def)

lemma contentStep_trans:
  "contentStep postId a b \<Longrightarrow> contentStep postId b c \<Longrightarrow> contentStep postId a c"
  by (auto simp: contentStep_def getContentByPostId_def find_None_iff split: if_splits)

lemma contentStep_saveContent: "contentStep postId w (saveContent postId c w)"
  by (auto simp: contentStep_def saveContent_def createContent_def split: option.splits)

lemma downloadPost_contentStep: "contentStep postId w (snd (downloadPost rnd e ls postId w))"
  by (rule downloadPost_rel [where R = "contentStep postId"])
     (auto intro: contentStep_trans contentStep_saveContent
        simp: contentStep_refl contentStep_same updatePostStatus_def createMedia_def
          updateMediaStatus_def updateMedia_def analyzePost_keeps Let_def)

lemma pipelineRuns_contentStep: "contentStep postId w (pipelineRuns rnd runs postId w)"
proof (induction runs arbitrary: w)
  case Nil
  show ?case by (simp add: contentStep_refl)
next
  case (Cons run runs)
  obtain e ls where run: "run = (e, ls)" by (cases run)
  have "contentStep postId w (snd (downloadPost rnd e ls postId w))"
    by (rule downloadPost_contentStep)
  moreover have "contentStep postId (snd (downloadPost rnd e ls postId w))
      (pipelineRuns rnd runs postId (snd (downloadPost rnd e ls postId w)))"
    by (rule Cons)
  ultimately show ?case
    unfolding run by (auto intro: contentStep_trans)
qed

text \<open>
  Claim C9. When a content record exists for the post, \<^verbatim>\<open>saveContent\<close> writes nothing, and
  any number of runs of the pipeline on the post, whatever their environments and
  listeners, leave the content table as it was; and from any store, the number of content
  records of the post after the runs is at most one, or what it was before.
\<close>

theorem content_is_written_at_most_once:
  "(getContentByPostId postId w \<noteq> None \<longrightarrow>
      saveContent postId c w = w
      \<and> tbl_content (pipelineRuns rnd runs postId w) = tbl_content w)
   \<and> contentCount postId (pipelineRuns rnd runs postId w) \<le> max 1 (contentCount postId w)"
proof -
  have step: "contentStep postId w (pipelineRuns rnd runs postId w)"
    by (rule pipelineRuns_contentStep)
  have none: "contentCount postId w = 0" if "getContentByPostId postId w = None"
    using that by (auto simp: contentCount_def getContentByPostId_def find_None_iff)
  show ?thesis
  proof (cases "getContentByPostId postId w = None")
    case True
    with step none show ?thesis
      by (auto simp: contentStep_def contentCount_def)
  next
    case False
    with step show ?thesis
      by (auto simp: contentStep_def contentCount_def saveContent_def)
  qed
qed

theorem content_is_written_at_most_once_witness:
  "snd (downloadPost binary64 textOnlyEnv [quietListener] 1 exampleWorld) = savedWorld
   \<and> getContentByPostId 1 savedWorld \<noteq> None
   \<and> tbl_content
       (pipelineRuns binary64 [(textOnlyEnv, [quietListener]), (galleryEnv, [pickyListener])] 1
          savedWorld) = tbl_content savedWorld
   \<and> contentCount 1
       (pipelineRuns binary64 [(textOnlyEnv, [quietListener]), (galleryEnv, [pickyListener])] 1
          savedWorld) \<le> 1"
proof -
  have h: "getContentByPostId 1 savedWorld \<noteq> None"
    by code_simp
  have n: "contentCount 1 savedWorld = 1"
    by code_simp
  from content_is_written_at_most_once
          [of 1 savedWorld textOnlyContent binary64
              "[(textOnlyEnv, [quietListener]), (galleryEnv, [pickyListener])]"]
       h n textOnly_run
  show ?thesis by simp
qed

section \<open>The enrichment step\<close>

lemma find_snoc_found: "P r \<Longrightarrow> \<exists>y. find P (xs @ [r]) = Some y"
  by (induction xs) auto

lemma enrichStep_refl: "enrichStep postId w w"
  by (simp add: enrichStep_def)

lemma enrichStep_same:
  "tbl_ai_results w' = tbl_ai_results w \<Longrightarrow> groupIncrements w' = groupIncrements w \<Longrightarrow>
   analyzeCalls w' = analyzeCalls w \<Longrightarrow> tbl_groups w' = tbl_groups w \<Longrightarrow>
   enrichStep postId w w'"
  by (simp add: enrichStep_def)

lemma countsRise_refl: "countsRiseByAtMostOne gs gs"
  by (simp add: countsRiseByAtMostOne_def)

lemma getOrCreateGroup_increment:
  "countsRiseByAtMostOne (tbl_groups w)
     (tbl_groups (incrementGroupPostCount (group_id (fst (getOrCreateGroup name w)))
        (snd (getOrCreateGroup name w))))"
  by (auto simp: getOrCreateGroup_def createGroup_def incrementGroupPostCount_def Let_def
      countsRiseByAtMostOne_def nth_append split: option.splits)

lemma enrichStep_trans:
  "enrichStep postId a b \<Longrightarrow> enrichStep postId b c \<Longrightarrow> enrichStep postId a c"
  by (auto simp: enrichStep_def getAIResultByPostId_def split: if_splits)

lemma analyzePost_existing:
  "getAIResultByPostId postId w = Some existing \<Longrightarrow>
   analyzePost e postId w =
     (\<lparr>asr_success = True, asr_aiResult = Some existing, asr_errorMessage = None\<rparr>, w)"
  by (simp add: analyzePost_def)

lemma getOrCreateGroup_keeps:
  "tbl_ai_results (snd (getOrCreateGroup name w)) = tbl_ai_results w"
  "groupIncrements (snd (getOrCreateGroup name w)) = groupIncrements w"
  by (simp_all add: getOrCreateGroup_def createGroup_def Let_def split: option.splits)

lemma increment_keeps:
  "tbl_ai_results (incrementGroupPostCount i w) = tbl_ai_results w"
  "groupIncrements (incrementGroupPostCount i w) = groupIncrements w @ [i]"
  "nextId (incrementGroupPostCount i w) = nextId w"
  by (simp_all add: incrementGroupPostCount_def)

lemma analysedStep_refl: "analysedStep postId w w"
  by (simp add: analysedStep_def)

lemma analysedStep_same:
  "tbl_ai_results w' = tbl_ai_results w \<Longrightarrow> groupIncrements w' = groupIncrements w \<Longrightarrow>
   analyzeCalls w' = analyzeCalls w \<Longrightarrow> tbl_groups w' = tbl_groups w \<Longrightarrow>
   analysedStep postId w w'"
  by (simp add: analysedStep_def)

lemma analysedStep_trans:
  "analysedStep postId a b \<Longrightarrow> analysedStep postId b c \<Longrightarrow> analysedStep postId a c"
  by (auto simp: analysedStep_def getAIResultByPostId_def)

lemma analysedStep_analyzePost: "analysedStep postId w (snd (analyzePost e postId w))"
  by (cases "getAIResultByPostId postId w")
     (simp_all add: analysedStep_def analyzePost_existing)

lemma downloadPost_analysedStep: "analysedStep postId w (snd (downloadPost rnd e ls postId w))"
  by (rule downloadPost_rel [where R = "analysedStep postId"])
     (auto intro: analysedStep_trans analysedStep_analyzePost
        simp: analysedStep_refl analysedStep_same updatePostStatus_def createMedia_def
          updateMediaStatus_def updateMedia_def saveContent_def createContent_def Let_def
        split: option.splits)

lemma pipelineRuns_analysedStep: "analysedStep postId w (pipelineRuns rnd runs postId w)"
proof (induction runs arbitrary: w)
  case Nil
  show ?case by (simp add: analysedStep_refl)
next
  case (Cons run runs)
  obtain e ls where run: "run = (e, ls)" by (cases run)
  have "analysedStep postId w (snd (downloadPost rnd e ls postId w))"
    by (rule downloadPost_analysedStep)
  moreover have "analysedStep postId (snd (downloadPost rnd e ls postId w))
      (pipelineRuns rnd runs postId (snd (downloadPost rnd e ls postId w)))"
    by (rule Cons)
  ultimately show ?case
    unfolding run by (auto intro: analysedStep_trans)
qed

text \<open>
  The guard of \<^verbatim>\<open>analyzePost\<close>. When an analysis result exists for the post,
  \<^verbatim>\<open>analyzePost\<close> returns it and leaves the store as it is, and any number of runs on the
  post, one after the other, send no request to the analyze service and increment no
  group, whatever their environments and listeners are.
\<close>

lemma existing_analysis_is_kept:
  assumes "getAIResultByPostId postId w = Some existing"
  shows "analyzePost e postId w =
           (\<lparr>asr_success = True, asr_aiResult = Some existing, asr_errorMessage = None\<rparr>, w)"
    and "analyzeCalls (pipelineRuns rnd runs postId w) = analyzeCalls w"
    and "groupIncrements (pipelineRuns rnd runs postId w) = groupIncrements w"
    and "tbl_groups (pipelineRuns rnd runs postId w) = tbl_groups w"
  using assms pipelineRuns_analysedStep [of postId w rnd runs]
  by (simp_all add: analysedStep_def analyzePost_existing)

lemma analyzePost_in_two_parts:
  "analyzePost e postId w =
     (case analyzePostUntilRequest postId w of
        (Decided result, w1) \<Rightarrow> (result, w1)
      | (Requested request, w1) \<Rightarrow> analyzePostAfterRequest e postId request w1)"
  by (simp add: analyzePost_def analyzePostUntilRequest_def analyzePostAfterRequest_def Let_def
      split: option.splits)

lemma getAIResultByPostId_same:
  "tbl_ai_results w' = tbl_ai_results w \<Longrightarrow>
   getAIResultByPostId postId w' = getAIResultByPostId postId w"
  by (simp add: getAIResultByPostId_def)

lemma createAIResult_fresh:
  assumes "insertAIResultError e postId = None" and "getAIResultByPostId postId w = None"
  shows "createAIResult e postId d g w =
     Inr (\<lparr>ai_id = nextId w, ai_postId = postId, ai_labels = ad_labels d,
           ai_summary = ad_summary d, ai_groupId = g, ai_contentType = ad_contentType d,
           ai_modelVersion = ad_modelVersion d\<rparr>,
          w\<lparr>tbl_ai_results := tbl_ai_results w @
               [\<lparr>ai_id = nextId w, ai_postId = postId, ai_labels = ad_labels d,
                 ai_summary = ad_summary d, ai_groupId = g, ai_contentType = ad_contentType d,
                 ai_modelVersion = ad_modelVersion d\<rparr>],
            nextId := Suc (nextId w)\<rparr>)"
  using assms
  by (auto simp: createAIResult_def getAIResultByPostId_def find_None_iff Let_def)

lemma enrichStep_created:
  assumes none: "getAIResultByPostId postId w = None"
    and inc: "length (groupIncrements w2) \<le> length (groupIncrements w) + 1"
    and groups: "countsRiseByAtMostOne (tbl_groups w) (tbl_groups w2)"
    and row: "ai_postId r = postId"
  shows "enrichStep postId w (w2\<lparr>tbl_ai_results := tbl_ai_results w2 @ [r], nextId := n\<rparr>)"
proof -
  have "\<exists>y. find (\<lambda>r. ai_postId r = postId) (tbl_ai_results w2 @ [r]) = Some y"
    using row by (rule find_snoc_found)
  with none inc groups show ?thesis
    by (auto simp: enrichStep_def getAIResultByPostId_def)
qed

lemma enrichStep_afterRequest:
  assumes ok: "insertAIResultError e postId = None"
    and none: "getAIResultByPostId postId w = None"
    and w1: "w1 = w\<lparr>analyzeCalls := calls\<rparr>"
  shows "enrichStep postId w (snd (analyzePostAfterRequest e postId request w1))"
proof -
  have same: "enrichStep postId w w1"
    using none w1 by (simp add: enrichStep_def)
  have none1: "getAIResultByPostId postId w1 = None"
    using none w1 by (simp add: getAIResultByPostId_def)
  show ?thesis
  proof (cases "xhsApi_analyze e request")
    case (Inl msg)
    with same show ?thesis by (simp add: analyzePostAfterRequest_def)
  next
    case (Inr response)
    show ?thesis
    proof (cases "if analyze_success response then analyze_data response else None")
      case None
      with Inr same show ?thesis by (simp add: analyzePostAfterRequest_def)
    next
      case (Some d)
      show ?thesis
      proof (cases "ad_suggestedGroupName d = None \<or> ad_suggestedGroupName d = Some []")
        case True
        have "enrichStep postId w
            (w1\<lparr>tbl_ai_results := tbl_ai_results w1 @
               [\<lparr>ai_id = nextId w1, ai_postId = postId, ai_labels = ad_labels d,
                 ai_summary = ad_summary d, ai_groupId = None, ai_contentType = ad_contentType d,
                 ai_modelVersion = ad_modelVersion d\<rparr>],
              nextId := Suc (nextId w1)\<rparr>)"
          using none by (rule enrichStep_created) (simp_all add: w1 countsRise_refl)
        with Inr Some True show ?thesis
          by (auto simp: analyzePostAfterRequest_def createAIResult_fresh [OF ok none1])
      next
        case False
        then obtain name where name: "ad_suggestedGroupName d = Some name" "name \<noteq> []"
          by auto
        let ?g = "fst (getOrCreateGroup name w1)"
        let ?w2 = "incrementGroupPostCount (group_id ?g) (snd (getOrCreateGroup name w1))"
        have none2: "getAIResultByPostId postId ?w2 = None"
          using none1
          by (simp add: getAIResultByPostId_def increment_keeps getOrCreateGroup_keeps)
        have "countsRiseByAtMostOne (tbl_groups w1) (tbl_groups ?w2)"
          by (rule getOrCreateGroup_increment)
        then have groups: "countsRiseByAtMostOne (tbl_groups w) (tbl_groups ?w2)"
          by (simp add: w1)
        have inc: "length (groupIncrements ?w2) \<le> length (groupIncrements w) + 1"
          by (simp add: increment_keeps getOrCreateGroup_keeps w1)
        have "enrichStep postId w
            (?w2\<lparr>tbl_ai_results := tbl_ai_results ?w2 @
               [\<lparr>ai_id = nextId ?w2, ai_postId = postId, ai_labels = ad_labels d,
                 ai_summary = ad_summary d, ai_groupId = Some (group_id ?g),
                 ai_contentType = ad_contentType d,
                 ai_modelVersion = ad_modelVersion d\<rparr>],
              nextId := Suc (nextId ?w2)\<rparr>)"
          using none inc groups by (rule enrichStep_created) simp
        with Inr Some name show ?thesis
          by (simp add: analyzePostAfterRequest_def split_beta createAIResult_fresh [OF ok none2])
      qed
    qed
  qed
qed

lemma enrichStep_analyzePost:
  assumes "insertAIResultError e postId = None"
  shows "enrichStep postId w (snd (analyzePost e postId w))"
proof (cases "getAIResultByPostId postId w")
  case (Some existing)
  then show ?thesis by (simp add: analyzePost_existing enrichStep_refl)
next
  case None
  show ?thesis
  proof (cases "getContentByPostId postId w")
    case none: None
    with None show ?thesis
      by (simp add: analyzePost_in_two_parts analyzePostUntilRequest_def enrichStep_refl)
  next
    case (Some content)
    with None enrichStep_afterRequest [OF assms None refl] show ?thesis
      by (simp add: analyzePost_in_two_parts analyzePostUntilRequest_def Let_def)
  qed
qed

lemma downloadPost_enrichStep:
  assumes "insertAIResultError e postId = None"
  shows "enrichStep postId w (snd (downloadPost rnd e ls postId w))"
  by (rule downloadPost_rel [where R = "enrichStep postId"])
     (auto intro: enrichStep_trans enrichStep_analyzePost [OF assms]
        simp: enrichStep_refl enrichStep_same updatePostStatus_def createMedia_def
          updateMediaStatus_def updateMedia_def saveContent_def createContent_def Let_def
        split: option.splits)

lemma pipelineRuns_enrichStep:
  assumes "\<forall>(e, ls) \<in> set runs. insertAIResultError e postId = None"
  shows "enrichStep postId w (pipelineRuns rnd runs postId w)"
  using assms
proof (induction runs arbitrary: w)
  case Nil
  show ?case by (simp add: enrichStep_refl)
next
  case (Cons run runs)
  obtain e ls where run: "run = (e, ls)" by (cases run)
  with Cons.prems have ok: "insertAIResultError e postId = None"
    and rest: "\<forall>(e, ls) \<in> set runs. insertAIResultError e postId = None"
    by simp_all
  have "enrichStep postId w (snd (downloadPost rnd e ls postId w))"
    using ok by (rule downloadPost_enrichStep)
  moreover have "enrichStep postId (snd (downloadPost rnd e ls postId w))
      (pipelineRuns rnd runs postId (snd (downloadPost rnd e ls postId w)))"
    using rest by (rule Cons.IH)
  ultimately show ?case
    unfolding run by (auto intro: enrichStep_trans)
qed

text \<open>
  Runs that follow one another and in none of which the insert of the analysis result is
  rejected call \<^verbatim>\<open>incrementGroupPostCount\<close> at most once for the post, and the post count
  of every group rises by at most one.
\<close>

lemma enrichment_without_failed_insert:
  assumes "\<forall>(e, ls) \<in> set runs. insertAIResultError e postId = None"
  shows "length (groupIncrements (pipelineRuns rnd runs postId w)) \<le> length (groupIncrements w) + 1"
    and "countsRiseByAtMostOne (tbl_groups w) (tbl_groups (pipelineRuns rnd runs postId w))"
  using pipelineRuns_enrichStep [OF assms, of w rnd]
  by (auto simp: enrichStep_def countsRise_refl split: if_splits)

lemma failedInsert_run:
  "downloadPost binary64 failedInsertEnv [quietListener] 1 exampleWorld =
     (Returned True, halfAnalysedWorld)"
  by code_simp

lemma failedInsert_next_run:
  "downloadPost binary64 textOnlyEnv [quietListener] 1 halfAnalysedWorld =
     (Returned True, recountedWorld)"
  by code_simp

text \<open>
  Claim C10, at an input where it fails. In the first run on post \<open>1\<close> the analyze service
  suggests the group \<open>Trips\<close> and the database rejects the insert of the analysis result:
  the group is created and counts one post, and no analysis result is stored. The second
  run finds no analysis result, asks the service again and increments the group again: the
  group counts two posts for the one post, and \<^verbatim>\<open>incrementGroupPostCount\<close> was called
  twice on its behalf. \<^verbatim>\<open>recalculateGroupPostCount\<close> counts one post for the group.
\<close>

theorem failed_insert_counts_post_twice:
  "tbl_ai_results (pipelineRuns binary64 [(failedInsertEnv, [quietListener])] 1 exampleWorld) = []
   \<and> map group_postCount
       (tbl_groups (pipelineRuns binary64 [(failedInsertEnv, [quietListener])] 1 exampleWorld)) = [1]
   \<and> groupIncrements
       (pipelineRuns binary64
          [(failedInsertEnv, [quietListener]), (textOnlyEnv, [quietListener])] 1 exampleWorld) =
       [4, 4]
   \<and> map group_postCount
       (tbl_groups
          (pipelineRuns binary64
             [(failedInsertEnv, [quietListener]), (textOnlyEnv, [quietListener])] 1 exampleWorld)) =
       [2]
   \<and> map ai_postId
       (tbl_ai_results
          (pipelineRuns binary64
             [(failedInsertEnv, [quietListener]), (textOnlyEnv, [quietListener])] 1 exampleWorld)) =
       [1]
   \<and> map group_postCount
       (tbl_groups
          (recalculateGroupPostCount 4
             (pipelineRuns binary64
                [(failedInsertEnv, [quietListener]), (textOnlyEnv, [quietListener])] 1
                exampleWorld))) =
       [1]"
  unfolding pipelineRuns.simps failedInsert_run snd_conv failedInsert_next_run
  by (simp add: halfAnalysedWorld_def recountedWorld_def savedWorld_def
      recalculateGroupPostCount_def)

text \<open>
  Two calls of \<^verbatim>\<open>analyzePost\<close> for post \<open>1\<close> that overlap, with no failure of the database:
  the second call passes the guard while the first waits for the analyze service. Both
  increment the group; the insert of the second is rejected by the unique column.
\<close>

lemma overlapping_analyses_count_post_twice:
  "fst (analyzePostUntilRequest 1 contentOnlyWorld) =
     Requested \<lparr>req_title = None, req_text = ''hello'', req_mediaCount = 0\<rparr>
   \<and> fst (analyzePostUntilRequest 1 (snd (analyzePostUntilRequest 1 contentOnlyWorld))) =
     Requested \<lparr>req_title = None, req_text = ''hello'', req_mediaCount = 0\<rparr>
   \<and> groupIncrements
       (snd (analyzePostAfterRequest textOnlyEnv 1
               \<lparr>req_title = None, req_text = ''hello'', req_mediaCount = 0\<rparr>
          (snd (analyzePostAfterRequest textOnlyEnv 1
                  \<lparr>req_title = None, req_text = ''hello'', req_mediaCount = 0\<rparr>
             (snd (analyzePostUntilRequest 1
                (snd (analyzePostUntilRequest 1 contentOnlyWorld)))))))) = [4, 4]
   \<and> map group_postCount
       (tbl_groups
         (snd (analyzePostAfterRequest textOnlyEnv 1
               \<lparr>req_title = None, req_text = ''hello'', req_mediaCount = 0\<rparr>
          (snd (analyzePostAfterRequest textOnlyEnv 1
                  \<lparr>req_title = None, req_text = ''hello'', req_mediaCount = 0\<rparr>
             (snd (analyzePostUntilRequest 1
                (snd (analyzePostUntilRequest 1 contentOnlyWorld))))))))) = [2]
   \<and> fst (analyzePostAfterRequest textOnlyEnv 1
               \<lparr>req_title = None, req_text = ''hello'', req_mediaCount = 0\<rparr>
          (snd (analyzePostAfterRequest textOnlyEnv 1
                  \<lparr>req_title = None, req_text = ''hello'', req_mediaCount = 0\<rparr>
             (snd (analyzePostUntilRequest 1
                (snd (analyzePostUntilRequest 1 contentOnlyWorld))))))) =
     \<lparr>asr_success = False, asr_aiResult = None,
      asr_errorMessage = Some ''UNIQUE constraint failed: ai_results.post_id''\<rparr>"
  by code_simp

end
